theory Spec2Isabelle
  imports Main "HOL-Library.Sublist" "HOL-Library.Multiset"
begin

text \<open>
  A model of \<open>main.go\<close> of terraform-module-resolve: the traversal that collects the
  files of a root module and of the local modules it calls (\<open>Analyze\<close>,
  \<open>analyzeRecursive\<close>, \<open>listTerraformFiles\<close>, \<open>isLocalPath\<close>) and the operations on its
  result (\<open>CollectAllFiles\<close>, \<open>IsAffected\<close>, \<open>FilterRelatedFiles\<close>, \<open>isInDirectory\<close>).
  The definitions come first, then the properties, one section for each group of them.
\<close>

section \<open>Strings and lexical paths\<close>

text \<open>
  Go strings are byte sequences; they are modelled as \<open>string\<close>.  The program runs its
  paths through \<open>strings.HasPrefix\<close>, \<open>strings.HasSuffix\<close> and the lexical functions of
  \<open>path/filepath\<close>.  These are modelled for a Unix target: the separator is \<open>/\<close> and there
  are no volume names.
\<close>

definition HasPrefix :: "string \<Rightarrow> string \<Rightarrow> bool" where
  "HasPrefix s p = (length p \<le> length s \<and> take (length p) s = p)"

definition HasSuffix :: "string \<Rightarrow> string \<Rightarrow> bool" where
  "HasSuffix s p = (length p \<le> length s \<and> drop (length s - length p) s = p)"

text \<open>\<open>strings.Split(s, "/")\<close> and \<open>strings.Join(es, "/")\<close>.\<close>

fun splitSep :: "string \<Rightarrow> string list" where
  "splitSep [] = [[]]"
| "splitSep (c # cs) =
     (if c = CHR ''/'' then [] # splitSep cs
      else (case splitSep cs of
              [] \<Rightarrow> [[c]]
            | e # es \<Rightarrow> (c # e) # es))"

fun joinSep :: "string list \<Rightarrow> string" where
  "joinSep [] = []"
| "joinSep [e] = e"
| "joinSep (e # e' # es) = e @ ''/'' @ joinSep (e' # es)"

text \<open>
  \<open>filepath.Clean\<close>: empty and \<open>.\<close> elements are dropped, an inner \<open>..\<close> removes the
  element before it, a \<open>..\<close> at the start of a rooted path is dropped and one at the start
  of a relative path is kept.  The last argument of \<open>cleanElems\<close> is the output so far,
  last element first.
\<close>

fun cleanElems :: "bool \<Rightarrow> string list \<Rightarrow> string list \<Rightarrow> string list" where
  "cleanElems rooted [] out = rev out"
| "cleanElems rooted (e # es) out =
     (if e = [] \<or> e = ''.'' then cleanElems rooted es out
      else if e = ''..'' then
        (case out of
           [] \<Rightarrow> if rooted then cleanElems rooted es out
                 else cleanElems rooted es [e]
         | t # ts \<Rightarrow> if t = ''..'' then cleanElems rooted es (e # out)
                     else cleanElems rooted es ts)
      else cleanElems rooted es (e # out))"

definition IsAbs :: "string \<Rightarrow> bool" where
  "IsAbs p = HasPrefix p ''/''"

definition Clean :: "string \<Rightarrow> string" where
  "Clean p =
     (if p = [] then ''.''
      else let es = cleanElems (IsAbs p) (splitSep p) []
           in if IsAbs p then CHR ''/'' # joinSep es
              else if es = [] then ''.'' else joinSep es)"

text \<open>\<open>filepath.Join\<close>: leading empty elements are ignored, the rest is joined and cleaned.\<close>

fun Join :: "string list \<Rightarrow> string" where
  "Join [] = []"
| "Join (e # es) = (if e \<noteq> [] then Clean (joinSep (e # es)) else Join es)"

text \<open>
  \<open>filepath.Abs\<close>.  The first argument is the result of \<open>os.Getwd\<close>, \<open>None\<close> when it
  fails; only then can \<open>Abs\<close> fail.
\<close>

definition Abs :: "string option \<Rightarrow> string \<Rightarrow> string option" where
  "Abs wd p =
     (if IsAbs p then Some (Clean p)
      else (case wd of None \<Rightarrow> None | Some d \<Rightarrow> Some (Join [d, p])))"

text \<open>
  \<open>filepath.Rel\<close>.  Both paths are cleaned; equal paths give \<open>.\<close>; a rooted and a
  relative path cannot be related; otherwise the common leading elements are dropped, each
  remaining element of the base becomes \<open>..\<close> and the remaining elements of the target follow.
  A base that still starts with \<open>..\<close> after the common elements cannot be related
  lexically (the working directory would be needed), and \<open>Rel\<close> fails; any relative path
  from such a base would start with \<open>..\<close> too.
\<close>

definition pathElems :: "string \<Rightarrow> string list" where
  "pathElems p =
     (if p = [] then []
      else if p = ''/'' then [[]]
      else splitSep p)"

fun dropCommon :: "string list \<Rightarrow> string list \<Rightarrow> string list \<times> string list" where
  "dropCommon (b # bs) (t # ts) = (if b = t then dropCommon bs ts else (b # bs, t # ts))"
| "dropCommon bs ts = (bs, ts)"

definition Rel :: "string \<Rightarrow> string \<Rightarrow> string option" where
  "Rel basepath targpath =
     (let base = Clean basepath; targ = Clean targpath
      in if targ = base then Some ''.''
         else let base' = (if base = ''.'' then [] else base)
              in if IsAbs base' \<noteq> IsAbs targ then None
                 else (case dropCommon (pathElems base') (pathElems targ) of
                         ([], ts) \<Rightarrow> Some (joinSep ts)
                       | (b # bs, ts) \<Rightarrow>
                           if b = ''..'' then None
                           else Some (joinSep (replicate (Suc (length bs)) ''..'' @ ts))))"

section \<open>Data model\<close>

record ModuleDetail =
  Name :: string
  Source :: string
  ResolvedPath :: string
  Files :: "string list"

record RemoteModule =
  remoteName :: string
  remoteSource :: string
  Version :: string
  CalledFrom :: string

record Output =
  RootModule :: ModuleDetail
  LocalModules :: "ModuleDetail list"
  RemoteModules :: "RemoteModule list"

section \<open>Path classification and the directory predicate\<close>

definition isLocalPath :: "string \<Rightarrow> bool" where
  "isLocalPath source = (HasPrefix source ''./'' \<or> HasPrefix source ''../'')"

definition isInDirectory :: "string \<Rightarrow> string \<Rightarrow> bool" where
  "isInDirectory filePath dirPath =
     (case Rel dirPath filePath of
        None \<Rightarrow> False
      | Some rel \<Rightarrow> \<not> HasPrefix rel ''../'' \<and> rel \<noteq> ''..'')"

section \<open>Collecting and filtering files\<close>

text \<open>
  The loops of \<open>CollectAllFiles\<close> and \<open>FilterRelatedFiles\<close> that append the files not seen
  so far.  The pair is the \<open>seen\<close> map (a set of paths) and the result slice.
\<close>

fun appendUnseen :: "string list \<Rightarrow> string set \<times> string list \<Rightarrow> string set \<times> string list" where
  "appendUnseen [] (seen, files) = (seen, files)"
| "appendUnseen (f # fs) (seen, files) =
     (if f \<notin> seen then appendUnseen fs (insert f seen, files @ [f])
      else appendUnseen fs (seen, files))"

definition CollectAllFiles :: "Output \<Rightarrow> string list" where
  "CollectAllFiles output =
     snd (fold (\<lambda>m acc. appendUnseen (Files m) acc) (LocalModules output)
            (appendUnseen (Files (RootModule output)) ({}, [])))"

text \<open>
  A changed path is made absolute the same way in \<open>IsAffected\<close> and \<open>FilterRelatedFiles\<close>:
  joined to the working directory when relative, then passed through \<open>filepath.Abs\<close>.  The
  errors of \<open>os.Getwd\<close> and \<open>filepath.Abs\<close> are discarded by the source, which leaves the
  empty string.
\<close>

definition resolveChanged :: "string option \<Rightarrow> string \<Rightarrow> string" where
  "resolveChanged wd f =
     (let cwd = (case wd of None \<Rightarrow> [] | Some d \<Rightarrow> d);
          absPath = (if \<not> IsAbs f then Join [cwd, f] else f)
      in case Abs wd absPath of None \<Rightarrow> [] | Some a \<Rightarrow> a)"

fun inLocalModule :: "string \<Rightarrow> ModuleDetail list \<Rightarrow> bool" where
  "inLocalModule absPath [] = False"
| "inLocalModule absPath (localMod # rest) =
     (if isInDirectory absPath (ResolvedPath localMod) then True
      else inLocalModule absPath rest)"

fun IsAffected :: "string option \<Rightarrow> string list \<Rightarrow> Output \<Rightarrow> bool" where
  "IsAffected wd [] output = False"
| "IsAffected wd (f # fs) output =
     (let absPath = resolveChanged wd f
      in if isInDirectory absPath (ResolvedPath (RootModule output)) then True
         else if inLocalModule absPath (LocalModules output) then True
         else IsAffected wd fs output)"

text \<open>
  \<open>FilterRelatedFiles\<close>.  The changed paths are first put into a map used as a set, and the
  loop over that map marks the affected module paths in a second such map.  The loop's order
  over the first map does not matter to the second, which is a set: the model runs through
  the changed paths in the order given.  The parameter \<open>allFiles\<close> is not read.
\<close>

definition markAffected :: "Output \<Rightarrow> string \<Rightarrow> string set \<Rightarrow> string set" where
  "markAffected output changedPath affected =
     fold (\<lambda>localMod acc.
             if isInDirectory changedPath (ResolvedPath localMod)
             then insert (ResolvedPath localMod) acc else acc)
          (LocalModules output)
          (if isInDirectory changedPath (ResolvedPath (RootModule output))
           then insert (ResolvedPath (RootModule output)) affected else affected)"

definition affectedModulePaths :: "string option \<Rightarrow> string list \<Rightarrow> Output \<Rightarrow> string set" where
  "affectedModulePaths wd changedFiles output =
     fold (markAffected output) (map (resolveChanged wd) changedFiles) {}"

definition FilterRelatedFiles ::
  "string option \<Rightarrow> string list \<Rightarrow> string list \<Rightarrow> Output \<Rightarrow> string list" where
  "FilterRelatedFiles wd allFiles changedFiles output =
     (let affected = affectedModulePaths wd changedFiles output
      in snd (fold (\<lambda>localMod acc.
                      if ResolvedPath localMod \<in> affected
                      then appendUnseen (Files localMod) acc else acc)
                (LocalModules output)
                (if ResolvedPath (RootModule output) \<in> affected
                 then appendUnseen (Files (RootModule output)) ({}, [])
                 else ({}, []))))"

section \<open>The filesystem and the configuration parser\<close>

text \<open>
  What the traversal reads from outside: for each directory that exists and can be read,
  its entries (name, and whether the entry is a directory) as \<open>os.ReadDir\<close> returns them
  (it sorts them by name), and
  the outcome of \<open>tfconfig.LoadModule\<close> there: \<open>None\<close> when the diagnostics have errors,
  otherwise the module calls.  A path that is not in the table can neither be listed nor
  loaded; of two rows for one path the first counts.  \<open>ModuleCalls\<close> is a Go map from
  call name to call (the loop takes the key as the call's name), and the traversal ranges
  over it; the list is that map's entries in the order the \<open>range\<close> statement produces
  them, an order the language leaves open.  \<open>getwd\<close> is the result of \<open>os.Getwd\<close>, \<open>None\<close>
  when it fails.
\<close>

record ModuleCall =
  callSource :: string
  callVersion :: string

record DirInfo =
  entries :: "(string \<times> bool) list"
  moduleCalls :: "(string \<times> ModuleCall) list option"

record FileSystem =
  dirs :: "(string \<times> DirInfo) list"
  getwd :: "string option"

definition ReadDir :: "FileSystem \<Rightarrow> string \<Rightarrow> (string \<times> bool) list option" where
  "ReadDir fs dir = map_option entries (map_of (dirs fs) dir)"

definition LoadModule :: "FileSystem \<Rightarrow> string \<Rightarrow> (string \<times> ModuleCall) list option" where
  "LoadModule fs dir =
     (case map_of (dirs fs) dir of None \<Rightarrow> None | Some info \<Rightarrow> moduleCalls info)"

definition listTerraformFiles :: "FileSystem \<Rightarrow> string \<Rightarrow> string list option" where
  "listTerraformFiles fs dir =
     (case ReadDir fs dir of
        None \<Rightarrow> None
      | Some es \<Rightarrow>
          Some (map (\<lambda>(name, isDir). Join [dir, name])
                  (filter (\<lambda>(name, isDir).
                             \<not> isDir \<and> (HasSuffix name ''.tf'' \<or> HasSuffix name ''.tf.json''))
                     es)))"

section \<open>The traversal\<close>

datatype error =
  AbsFailed
| ListRootFailed string
| LoadModuleFailed string

datatype warning =
  CannotRead string
| FailedToAnalyze string error

record Traversal =
  visited :: "string set"
  localModules :: "ModuleDetail list"
  remoteModules :: "RemoteModule list"
  warnings :: "warning list"

text \<open>
  The directory a local call resolves to: the source joined to the calling directory and
  made absolute.  The error of \<open>filepath.Abs\<close> is discarded by the source, which leaves the
  empty string.
\<close>

definition resolveCall :: "FileSystem \<Rightarrow> string \<Rightarrow> ModuleCall \<Rightarrow> string" where
  "resolveCall fs absDir call =
     (case Abs (getwd fs) (Join [absDir, callSource call]) of None \<Rightarrow> [] | Some p \<Rightarrow> p)"

text \<open>
  \<open>analyzeRecursive\<close> and its loop over the module calls.  The three mutable arguments of
  the source (the visited map and the two slices behind pointers) and the lines written to
  standard error are one state, passed in and returned; the source changes them also on the
  paths that return an error, so the state comes back beside the error.  The first argument
  bounds the depth of the recursion; \<open>None\<close> means the bound was reached.
\<close>

fun analyzeRecursive ::
    "nat \<Rightarrow> FileSystem \<Rightarrow> string \<Rightarrow> string \<Rightarrow> Traversal \<Rightarrow> (error option \<times> Traversal) option"
  and rangeModuleCalls ::
    "nat \<Rightarrow> FileSystem \<Rightarrow> string \<Rightarrow> string \<Rightarrow> (string \<times> ModuleCall) list \<Rightarrow> Traversal
       \<Rightarrow> Traversal option"
where
  "analyzeRecursive 0 fs dir calledFrom st = None"
| "analyzeRecursive (Suc n) fs dir calledFrom st =
     (case Abs (getwd fs) dir of
        None \<Rightarrow> Some (Some AbsFailed, st)
      | Some absDir \<Rightarrow>
          if absDir \<in> visited st then Some (None, st)
          else (let st1 = st\<lparr>visited := insert absDir (visited st)\<rparr>
                in case LoadModule fs absDir of
                     None \<Rightarrow> Some (Some (LoadModuleFailed absDir), st1)
                   | Some calls \<Rightarrow>
                       map_option (Pair None) (rangeModuleCalls n fs absDir calledFrom calls st1)))"
| "rangeModuleCalls n fs absDir calledFrom [] st = Some st"
| "rangeModuleCalls n fs absDir calledFrom ((name, call) # rest) st =
     (if isLocalPath (callSource call) then
        (let resolvedPath = resolveCall fs absDir call
         in case listTerraformFiles fs resolvedPath of
              None \<Rightarrow>
                rangeModuleCalls n fs absDir calledFrom rest
                  (st\<lparr>warnings := warnings st @ [CannotRead resolvedPath]\<rparr>)
            | Some files \<Rightarrow>
                (case analyzeRecursive n fs resolvedPath name
                        (st\<lparr>localModules := localModules st @
                              [\<lparr>Name = name, Source = callSource call,
                                ResolvedPath = resolvedPath, Files = files\<rparr>]\<rparr>) of
                   None \<Rightarrow> None
                 | Some (None, st') \<Rightarrow> rangeModuleCalls n fs absDir calledFrom rest st'
                 | Some (Some err, st') \<Rightarrow>
                     rangeModuleCalls n fs absDir calledFrom rest
                       (st'\<lparr>warnings := warnings st' @ [FailedToAnalyze resolvedPath err]\<rparr>)))
      else
        rangeModuleCalls n fs absDir calledFrom rest
          (st\<lparr>remoteModules := remoteModules st @
                [\<lparr>remoteName = name, remoteSource = callSource call,
                  Version = callVersion call,
                  CalledFrom = (if calledFrom = [] then ''(root)'' else calledFrom)\<rparr>]\<rparr>))"

text \<open>
  \<open>Analyze\<close>.  \<open>None\<close> is returned when the traversal reached its depth bound, otherwise the
  error or the output; the warnings written meanwhile are returned beside the output.
\<close>

definition Analyze :: "nat \<Rightarrow> FileSystem \<Rightarrow> string \<Rightarrow> (error + Output \<times> warning list) option" where
  "Analyze n fs dir =
     (case Abs (getwd fs) dir of
        None \<Rightarrow> Some (Inl AbsFailed)
      | Some absDir \<Rightarrow>
          (case listTerraformFiles fs absDir of
             None \<Rightarrow> Some (Inl (ListRootFailed absDir))
           | Some rootFiles \<Rightarrow>
               (case analyzeRecursive n fs absDir []
                       \<lparr>visited = {}, localModules = [], remoteModules = [], warnings = []\<rparr> of
                  None \<Rightarrow> None
                | Some (Some err, st) \<Rightarrow> Some (Inl err)
                | Some (None, st) \<Rightarrow>
                    Some (Inr (\<lparr>RootModule = \<lparr>Name = [], Source = [],
                                               ResolvedPath = absDir, Files = rootFiles\<rparr>,
                                 LocalModules = localModules st,
                                 RemoteModules = remoteModules st\<rparr>,
                               warnings st)))))"

section \<open>Reference notions for the statements\<close>

text \<open>
  The union in first-seen order, as the file operations are described: of the equal
  elements of a list only the first is kept.
\<close>

definition keepFirst :: "'a list \<Rightarrow> 'a list" where
  "keepFirst xs = rev (remdups (rev xs))"

text \<open>
  An element of a cleaned rooted path: not empty, not \<open>.\<close>, not \<open>..\<close>, and without a
  separator.
\<close>

definition plainElem :: "string \<Rightarrow> bool" where
  "plainElem e = (e \<noteq> [] \<and> e \<noteq> ''.'' \<and> e \<noteq> ''..'' \<and> CHR ''/'' \<notin> set e)"

text \<open>
  The state changes of the traversal, named for the statements and proofs below.
\<close>

definition markVisited :: "string \<Rightarrow> Traversal \<Rightarrow> Traversal" where
  "markVisited absDir st = st\<lparr>visited := insert absDir (visited st)\<rparr>"

definition addLocal :: "string \<Rightarrow> ModuleCall \<Rightarrow> string \<Rightarrow> string list \<Rightarrow> Traversal \<Rightarrow> Traversal" where
  "addLocal name call resolvedPath files st =
     st\<lparr>localModules := localModules st @
          [\<lparr>Name = name, Source = callSource call,
            ResolvedPath = resolvedPath, Files = files\<rparr>]\<rparr>"

definition addRemote :: "string \<Rightarrow> ModuleCall \<Rightarrow> string \<Rightarrow> Traversal \<Rightarrow> Traversal" where
  "addRemote name call calledFrom st =
     st\<lparr>remoteModules := remoteModules st @
          [\<lparr>remoteName = name, remoteSource = callSource call,
            Version = callVersion call,
            CalledFrom = (if calledFrom = [] then ''(root)'' else calledFrom)\<rparr>]\<rparr>"

definition warn :: "warning \<Rightarrow> Traversal \<Rightarrow> Traversal" where
  "warn w st = st\<lparr>warnings := warnings st @ [w]\<rparr>"

definition afterRecursion :: "string \<Rightarrow> error option \<Rightarrow> Traversal \<Rightarrow> Traversal" where
  "afterRecursion resolvedPath e st =
     (case e of None \<Rightarrow> st | Some err \<Rightarrow> warn (FailedToAnalyze resolvedPath err) st)"

text \<open>
  The directories that the local calls of a directory resolve to, for the calls whose
  directory can be listed (those are the calls that get a record): for a list of calls, for
  the calls that the parser reports in a directory, and for all directories of the tree.
\<close>

definition localTargets :: "FileSystem \<Rightarrow> string \<Rightarrow> (string \<times> ModuleCall) list \<Rightarrow> string list" where
  "localTargets fs absDir calls =
     map (\<lambda>(name, call). resolveCall fs absDir call)
       (filter (\<lambda>(name, call).
                  isLocalPath (callSource call) \<and>
                  listTerraformFiles fs (resolveCall fs absDir call) \<noteq> None)
          calls)"

definition dirTargets :: "FileSystem \<Rightarrow> string \<Rightarrow> string list" where
  "dirTargets fs absDir =
     (case LoadModule fs absDir of None \<Rightarrow> [] | Some calls \<Rightarrow> localTargets fs absDir calls)"

definition allLocalTargets :: "FileSystem \<Rightarrow> string list" where
  "allLocalTargets fs = concat (map (dirTargets fs) (remdups (map fst (dirs fs))))"

text \<open>The resolved paths of the local module records of a successful result.\<close>

definition resolvedPaths :: "(error + Output \<times> warning list) option \<Rightarrow> string list" where
  "resolvedPaths r =
     (case r of Some (Inr (out, ws)) \<Rightarrow> map ResolvedPath (LocalModules out) | _ \<Rightarrow> [])"

text \<open>
  Two descriptions of one filesystem state: the same working directory, the same
  directories with the same entries, and in each directory the same parse outcome, where
  two lists of calls are the same outcome when they hold the same entries of a map keyed by
  the call name.  The order of the lists, which is the order of the \<open>range\<close> over that map,
  is not part of the state.
\<close>

definition sameCalls ::
  "(string \<times> ModuleCall) list option \<Rightarrow> (string \<times> ModuleCall) list option \<Rightarrow> bool" where
  "sameCalls c c' =
     (case (c, c') of
        (None, None) \<Rightarrow> True
      | (Some cs, Some cs') \<Rightarrow>
          distinct (map fst cs) \<and> distinct (map fst cs') \<and> set cs = set cs'
      | _ \<Rightarrow> False)"

definition sameState :: "FileSystem \<Rightarrow> FileSystem \<Rightarrow> bool" where
  "sameState fs fs' =
     (getwd fs = getwd fs' \<and>
      list_all2 (\<lambda>(d, info) (d', info').
                   d = d' \<and> entries info = entries info' \<and>
                   sameCalls (moduleCalls info) (moduleCalls info'))
        (dirs fs) (dirs fs'))"

text \<open>The names of the remote module references of a successful result.\<close>

definition remoteNames :: "(error + Output \<times> warning list) option \<Rightarrow> string list" where
  "remoteNames r =
     (case r of Some (Inr (out, ws)) \<Rightarrow> map remoteName (RemoteModules out) | _ \<Rightarrow> [])"

section \<open>Example trees\<close>

text \<open>Two modules that call each other, as in the repository's test of a circular dependency.\<close>

definition fsCycle :: FileSystem where
  "fsCycle =
     \<lparr>dirs =
        [(''/t/module_a'',
          \<lparr>entries = [(''main.tf'', False)],
            moduleCalls = Some [(''b'', \<lparr>callSource = ''../module_b'', callVersion = []\<rparr>)]\<rparr>),
         (''/t/module_b'',
          \<lparr>entries = [(''main.tf'', False)],
            moduleCalls = Some [(''a'', \<lparr>callSource = ''../module_a'', callVersion = []\<rparr>)]\<rparr>)],
      getwd = Some ''/t''\<rparr>"

text \<open>
  A root with three local calls: to a directory whose configuration does not parse, to a
  directory that does not exist, and to a directory that is in order and declares a remote
  call.
\<close>

definition fsBroken :: FileSystem where
  "fsBroken =
     \<lparr>dirs =
        [(''/w/root'',
          \<lparr>entries = [(''main.tf'', False)],
            moduleCalls =
              Some [(''bad'', \<lparr>callSource = ''./bad'', callVersion = []\<rparr>),
                    (''gone'', \<lparr>callSource = ''./gone'', callVersion = []\<rparr>),
                    (''good'', \<lparr>callSource = ''./good'', callVersion = []\<rparr>)]\<rparr>),
         (''/w/root/bad'',
          \<lparr>entries = [(''main.tf'', False)], moduleCalls = None\<rparr>),
         (''/w/root/good'',
          \<lparr>entries = [(''README.md'', False), (''main.tf'', False), (''sub'', True)],
            moduleCalls =
              Some [(''eks'', \<lparr>callSource = ''terraform-aws-modules/eks/aws'',
                               callVersion = ''~> 19.0''\<rparr>)]\<rparr>)],
      getwd = Some ''/w''\<rparr>"

text \<open>A root with a local call to a directory that does not exist and one to a sibling.\<close>

definition fsMissing :: FileSystem where
  "fsMissing =
     \<lparr>dirs =
        [(''/w/root'',
          \<lparr>entries = [(''main.tf'', False)],
            moduleCalls =
              Some [(''gone'', \<lparr>callSource = ''./gone'', callVersion = []\<rparr>),
                    (''kept'', \<lparr>callSource = ''../kept'', callVersion = []\<rparr>)]\<rparr>),
         (''/w/kept'',
          \<lparr>entries = [(''main.tf'', False), (''notes.txt'', False), (''outputs.tf.json'', False)],
            moduleCalls = Some []\<rparr>)],
      getwd = Some ''/w''\<rparr>"

text \<open>The output of the repository's test of the file filter: a root and two modules.\<close>

definition outTest :: Output where
  "outTest =
     \<lparr>RootModule = \<lparr>Name = [], Source = [], ResolvedPath = ''/t/root'',
                     Files = [''/t/root/main.tf'']\<rparr>,
      LocalModules =
        [\<lparr>Name = ''vpc'', Source = ''../modules/vpc'', ResolvedPath = ''/t/modules/vpc'',
           Files = [''/t/modules/vpc/main.tf'', ''/t/modules/vpc/variables.tf'']\<rparr>,
         \<lparr>Name = ''iam'', Source = ''../modules/iam'', ResolvedPath = ''/t/modules/iam'',
           Files = [''/t/modules/iam/main.tf'']\<rparr>],
      RemoteModules = []\<rparr>"

text \<open>A root that calls the modules \<open>a\<close> and \<open>b\<close>, where \<open>a\<close> calls \<open>b\<close> as well.\<close>

definition fsShared :: FileSystem where
  "fsShared =
     \<lparr>dirs =
        [(''/p/root'',
          \<lparr>entries = [(''main.tf'', False)],
            moduleCalls =
              Some [(''a'', \<lparr>callSource = ''../a'', callVersion = []\<rparr>),
                    (''b'', \<lparr>callSource = ''../b'', callVersion = []\<rparr>)]\<rparr>),
         (''/p/a'',
          \<lparr>entries = [(''main.tf'', False)],
            moduleCalls = Some [(''b'', \<lparr>callSource = ''../b'', callVersion = []\<rparr>)]\<rparr>),
         (''/p/b'',
          \<lparr>entries = [(''main.tf'', False)], moduleCalls = Some []\<rparr>)],
      getwd = Some ''/p''\<rparr>"

text \<open>
  The tree of the repository's test of \<open>Analyze\<close>: the root calls a local module and a
  registry module, and the local module calls a module nested in it.
\<close>

definition fsTree :: FileSystem where
  "fsTree =
     \<lparr>dirs =
        [(''/t/root'',
          \<lparr>entries = [(''main.tf'', False)],
            moduleCalls =
              Some [(''vpc'', \<lparr>callSource = ''../modules/vpc'', callVersion = []\<rparr>),
                    (''eks'', \<lparr>callSource = ''terraform-aws-modules/eks/aws'',
                               callVersion = ''~> 19.0''\<rparr>)]\<rparr>),
         (''/t/modules/vpc'',
          \<lparr>entries = [(''main.tf'', False), (''subnets'', True), (''variables.tf'', False)],
            moduleCalls =
              Some [(''subnets'', \<lparr>callSource = ''./subnets'', callVersion = []\<rparr>)]\<rparr>),
         (''/t/modules/vpc/subnets'',
          \<lparr>entries = [(''main.tf'', False)], moduleCalls = Some []\<rparr>)],
      getwd = Some ''/t''\<rparr>"

text \<open>
  A root with two local and two remote calls, ranged over in one order or in the reverse
  order.
\<close>

definition fsOrder :: "bool \<Rightarrow> FileSystem" where
  "fsOrder swapped =
     \<lparr>dirs =
        [(''/t/root'',
          \<lparr>entries = [(''main.tf'', False)],
            moduleCalls =
              Some ((if swapped then rev else id)
                [(''vpc'', \<lparr>callSource = ''../modules/vpc'', callVersion = []\<rparr>),
                 (''iam'', \<lparr>callSource = ''../modules/iam'', callVersion = []\<rparr>),
                 (''eks'', \<lparr>callSource = ''terraform-aws-modules/eks/aws'',
                            callVersion = ''~> 19.0''\<rparr>),
                 (''consul'', \<lparr>callSource = ''hashicorp/consul/aws'', callVersion = []\<rparr>)])\<rparr>),
         (''/t/modules/vpc'',
          \<lparr>entries = [(''main.tf'', False), (''variables.tf'', False)], moduleCalls = Some []\<rparr>),
         (''/t/modules/iam'',
          \<lparr>entries = [(''main.tf'', False)], moduleCalls = Some []\<rparr>)],
      getwd = Some ''/t''\<rparr>"

text \<open>
  Two modules that call each other and declare other calls beside: the first a registry
  module and a local module whose directory does not exist, the second a registry module.
\<close>

definition fsCycleMixed :: FileSystem where
  "fsCycleMixed =
     \<lparr>dirs =
        [(''/t/module_a'',
          \<lparr>entries = [(''main.tf'', False)],
            moduleCalls =
              Some [(''eks'', \<lparr>callSource = ''terraform-aws-modules/eks/aws'',
                               callVersion = ''~> 19.0''\<rparr>),
                    (''b'', \<lparr>callSource = ''../module_b'', callVersion = []\<rparr>),
                    (''gone'', \<lparr>callSource = ''./gone'', callVersion = []\<rparr>)]\<rparr>),
         (''/t/module_b'',
          \<lparr>entries = [(''main.tf'', False)],
            moduleCalls =
              Some [(''a'', \<lparr>callSource = ''../module_a'', callVersion = []\<rparr>),
                    (''consul'', \<lparr>callSource = ''hashicorp/consul/aws'', callVersion = []\<rparr>)]\<rparr>)],
      getwd = Some ''/t''\<rparr>"

text \<open>Two modules that call each other, where the first calls a third local module too.\<close>

definition fsCycleExtra :: FileSystem where
  "fsCycleExtra =
     \<lparr>dirs =
        [(''/t/module_a'',
          \<lparr>entries = [(''main.tf'', False)],
            moduleCalls =
              Some [(''b'', \<lparr>callSource = ''../module_b'', callVersion = []\<rparr>),
                    (''c'', \<lparr>callSource = ''../module_c'', callVersion = []\<rparr>)]\<rparr>),
         (''/t/module_b'',
          \<lparr>entries = [(''main.tf'', False)],
            moduleCalls = Some [(''a'', \<lparr>callSource = ''../module_a'', callVersion = []\<rparr>)]\<rparr>),
         (''/t/module_c'',
          \<lparr>entries = [(''main.tf'', False)], moduleCalls = Some []\<rparr>)],
      getwd = Some ''/t''\<rparr>"

text \<open>
  Two directories that hold links to each other: \<open>/t/a/b\<close> is a symbolic link to \<open>/t/b\<close>
  and \<open>/t/b/a\<close> one to \<open>/t/a\<close>.  The module in \<open>/t/a\<close> calls \<open>./b\<close> and the module in
  \<open>/t/b\<close> calls \<open>./a\<close>.  A directory is listed and parsed under every path that leads to
  it, so the table has a row for each such path, with the entries and the calls of the
  directory it leads to, down to the longest path that is accepted (here three links below
  \<open>/t/a\<close>).
\<close>

definition fsLinked :: FileSystem where
  "fsLinked =
     \<lparr>dirs =
        [(''/t/a'',
          \<lparr>entries = [(''b'', True), (''main.tf'', False)],
            moduleCalls = Some [(''b'', \<lparr>callSource = ''./b'', callVersion = []\<rparr>)]\<rparr>),
         (''/t/b'',
          \<lparr>entries = [(''a'', True), (''main.tf'', False)],
            moduleCalls = Some [(''a'', \<lparr>callSource = ''./a'', callVersion = []\<rparr>)]\<rparr>),
         (''/t/a/b'',
          \<lparr>entries = [(''a'', True), (''main.tf'', False)],
            moduleCalls = Some [(''a'', \<lparr>callSource = ''./a'', callVersion = []\<rparr>)]\<rparr>),
         (''/t/a/b/a'',
          \<lparr>entries = [(''b'', True), (''main.tf'', False)],
            moduleCalls = Some [(''b'', \<lparr>callSource = ''./b'', callVersion = []\<rparr>)]\<rparr>),
         (''/t/a/b/a/b'',
          \<lparr>entries = [(''a'', True), (''main.tf'', False)],
            moduleCalls = Some [(''a'', \<lparr>callSource = ''./a'', callVersion = []\<rparr>)]\<rparr>)],
      getwd = Some ''/t''\<rparr>"

section \<open>First-seen union\<close>

lemma keepFirst_Nil: "keepFirst [] = []"
  by (simp add: keepFirst_def)

lemma remdups_append_filter:
  "remdups (as @ bs) = remdups (filter (\<lambda>y. y \<notin> set bs) as) @ remdups bs"
  by (induction as) auto

lemma keepFirst_append:
  "keepFirst (xs @ ys) = keepFirst xs @ keepFirst (filter (\<lambda>y. y \<notin> set xs) ys)"
proof -
  have "remdups (rev ys @ rev xs) =
          remdups (filter (\<lambda>y. y \<notin> set (rev xs)) (rev ys)) @ remdups (rev xs)"
    by (rule remdups_append_filter)
  then show ?thesis by (simp add: keepFirst_def rev_filter)
qed

lemma keepFirst_Cons: "keepFirst (x # xs) = x # keepFirst (removeAll x xs)"
proof -
  have "filter (\<lambda>y. y \<notin> set [x]) xs = removeAll x xs"
    by (induction xs) auto
  then show ?thesis
    using keepFirst_append [of "[x]" xs] by (simp add: keepFirst_def)
qed

lemma distinct_keepFirst: "distinct (keepFirst xs)"
  by (simp add: keepFirst_def)
lemma set_keepFirst: "set (keepFirst xs) = set xs"
  by (simp add: keepFirst_def)

lemma appendUnseen_keepFirst:
  "appendUnseen fs (set files, files) =
     (set (files @ fs), files @ keepFirst (filter (\<lambda>f. f \<notin> set files) fs))"
proof (induction fs arbitrary: files)
  case Nil
  then show ?case by (simp add: keepFirst_Nil)
next
  case (Cons f fs)
  show ?case
  proof (cases "f \<in> set files")
    case True
    then show ?thesis using Cons.IH [of files] by (simp add: insert_absorb)
  next
    case False
    have "insert f (set files) = set (files @ [f])" by simp
    then have "appendUnseen fs (insert f (set files), files @ [f]) =
       (set ((files @ [f]) @ fs), (files @ [f]) @ keepFirst (filter (\<lambda>g. g \<notin> set (files @ [f])) fs))"
      using Cons.IH [of "files @ [f]"] by simp
    moreover have "filter (\<lambda>g. g \<notin> set (files @ [f])) fs = removeAll f (filter (\<lambda>g. g \<notin> set files) fs)"
      by (induction fs) auto
    ultimately show ?thesis using False by (simp add: keepFirst_Cons)
  qed
qed

lemma appendUnseen_dedup:
  "appendUnseen fs (set (keepFirst xs), keepFirst xs) = (set (keepFirst (xs @ fs)), keepFirst (xs @ fs))"
proof -
  have "appendUnseen fs (set (keepFirst xs), keepFirst xs) =
          (set (keepFirst xs @ fs),
           keepFirst xs @ keepFirst (filter (\<lambda>f. f \<notin> set (keepFirst xs)) fs))"
    by (rule appendUnseen_keepFirst)
  moreover have "set xs \<union> set fs = set xs \<union> {x \<in> set fs. x \<notin> set xs}" by auto
  ultimately show ?thesis by (simp add: keepFirst_append set_keepFirst)
qed

lemma fold_appendUnseen:
  "fold (\<lambda>m acc. appendUnseen (Files m) acc) ms (set (keepFirst xs), keepFirst xs) =
     (set (keepFirst (xs @ concat (map Files ms))), keepFirst (xs @ concat (map Files ms)))"
  by (induction ms arbitrary: xs) (simp_all add: appendUnseen_dedup)

text \<open>
  Claim C9.  For every output, \<open>CollectAllFiles\<close> returns the root module's files followed
  by each local module's files in the order of \<open>LocalModules\<close>, with every path that
  occurred before removed, so that the first occurrence is the one kept; the returned
  sequence has no duplicate.
\<close>

theorem CollectAllFiles_first_seen_union:
  "CollectAllFiles output =
     keepFirst (Files (RootModule output) @ concat (map Files (LocalModules output)))
   \<and> distinct (CollectAllFiles output)"
proof -
  have "appendUnseen (Files (RootModule output)) ({}, []) =
      (set (keepFirst (Files (RootModule output))), keepFirst (Files (RootModule output)))"
    using appendUnseen_dedup [of "Files (RootModule output)" "[]"] by (simp add: keepFirst_Nil)
  then have "CollectAllFiles output =
     keepFirst (Files (RootModule output) @ concat (map Files (LocalModules output)))"
    by (simp add: CollectAllFiles_def fold_appendUnseen)
  then show ?thesis by (simp add: distinct_keepFirst)
qed

section \<open>Classifying a source\<close>

lemma HasPrefix_iff: "HasPrefix s p \<longleftrightarrow> (\<exists>rest. s = p @ rest)"
  unfolding HasPrefix_def
  by (metis append_eq_conv_conj append_take_drop_id le_add1 length_append)

text \<open>
  Claim C8.  \<open>isLocalPath\<close> is a function of the source string alone (it takes no
  filesystem) and is true exactly when the string starts with \<open>./\<close> or with \<open>../\<close>; a
  registry identifier, a \<open>git::\<close> or \<open>s3::\<close> locator, a host-qualified registry path and a
  bare name are not local.
\<close>

theorem isLocalPath_iff:
  "(isLocalPath source \<longleftrightarrow> (\<exists>rest. source = ''./'' @ rest) \<or> (\<exists>rest. source = ''../'' @ rest))
   \<and> \<not> isLocalPath ''terraform-aws-modules/eks/aws''
   \<and> \<not> isLocalPath ''git::https://github.com/org/repo.git''
   \<and> \<not> isLocalPath ''s3::https://bucket.s3.amazonaws.com/module.zip''
   \<and> \<not> isLocalPath ''registry.terraform.io/hashicorp/consul/aws''
   \<and> \<not> isLocalPath ''vpc''"
proof -
  have "isLocalPath source \<longleftrightarrow> (\<exists>rest. source = ''./'' @ rest) \<or> (\<exists>rest. source = ''../'' @ rest)"
    unfolding isLocalPath_def HasPrefix_iff ..
  moreover have "\<not> isLocalPath ''terraform-aws-modules/eks/aws''" by (simp add: isLocalPath_def HasPrefix_def)
  moreover have "\<not> isLocalPath ''git::https://github.com/org/repo.git''" by (simp add: isLocalPath_def HasPrefix_def)
  moreover have "\<not> isLocalPath ''s3::https://bucket.s3.amazonaws.com/module.zip''" by (simp add: isLocalPath_def HasPrefix_def)
  moreover have "\<not> isLocalPath ''registry.terraform.io/hashicorp/consul/aws''" by (simp add: isLocalPath_def HasPrefix_def)
  moreover have "\<not> isLocalPath ''vpc''" by (simp add: isLocalPath_def HasPrefix_def)
  ultimately show ?thesis by blast
qed

section \<open>The directory predicate\<close>

lemma Rel_same: "Rel p p = Some ''.''"
  by (simp add: Rel_def)

text \<open>
  Claim C7.  \<open>isInDirectory filePath dirPath\<close> holds exactly when the two paths are equal
  or the relative path from \<open>dirPath\<close> to \<open>filePath\<close> exists, does not start with a
  parent-directory step and is not a single parent-directory step.  A directory is in
  itself, a sibling file is not in it, a nested descendant is.
\<close>

theorem isInDirectory_iff:
  "(isInDirectory filePath dirPath \<longleftrightarrow>
      filePath = dirPath \<or>
      (\<exists>rel. Rel dirPath filePath = Some rel \<and> \<not> HasPrefix rel ''../'' \<and> rel \<noteq> ''..''))
   \<and> isInDirectory ''/a/b/c'' ''/a/b/c''
   \<and> \<not> isInDirectory ''/a/b/file.tf'' ''/a/b/c''
   \<and> isInDirectory ''/a/b/c/d/file.tf'' ''/a/b/c''"
proof -
  have self: "isInDirectory p p" for p
    by (simp add: isInDirectory_def Rel_same HasPrefix_def)
  have "isInDirectory filePath dirPath \<longleftrightarrow>
      filePath = dirPath \<or>
      (\<exists>rel. Rel dirPath filePath = Some rel \<and> \<not> HasPrefix rel ''../'' \<and> rel \<noteq> ''..'')"
    using self [of dirPath] by (auto simp: isInDirectory_def split: option.splits)
  moreover have "\<not> isInDirectory ''/a/b/file.tf'' ''/a/b/c''" by code_simp
  moreover have "isInDirectory ''/a/b/c/d/file.tf'' ''/a/b/c''" by code_simp
  ultimately show ?thesis using self by blast
qed

section \<open>Cleaned paths\<close>

text \<open>
  Cleaning a rooted path gives a rooted path that cleaning leaves as it is; so a path that
  \<open>Abs\<close> returned, if it is absolute, is returned by \<open>Abs\<close> unchanged.
\<close>

lemma splitSep_no_sep: "e \<in> set (splitSep p) \<Longrightarrow> CHR ''/'' \<notin> set e"
proof (induction p arbitrary: e)
  case Nil
  then show ?case by simp
next
  case (Cons c cs)
  then show ?case
    by (cases "splitSep cs") (auto split: if_splits)
qed

lemma splitSep_not_Nil: "splitSep p \<noteq> []"
  by (cases p) (auto split: list.splits)

lemma splitSep_append_sep:
  "CHR ''/'' \<notin> set e \<Longrightarrow> splitSep (e @ CHR ''/'' # rest) = e # splitSep rest"
  by (induction e) auto

lemma splitSep_plain: "CHR ''/'' \<notin> set e \<Longrightarrow> splitSep e = [e]"
  by (induction e) auto

lemma splitSep_joinSep:
  "es \<noteq> [] \<Longrightarrow> \<forall>e \<in> set es. CHR ''/'' \<notin> set e \<Longrightarrow> splitSep (joinSep es) = es"
proof (induction es rule: joinSep.induct)
  case 1
  then show ?case by simp
next
  case (2 e)
  then show ?case by (simp add: splitSep_plain)
next
  case (3 e e' es)
  then show ?case by (simp add: splitSep_append_sep)
qed

lemma cleanElems_skip:
  "e = [] \<or> e = ''.'' \<Longrightarrow> cleanElems rooted (e # es) out = cleanElems rooted es out"
  by auto

lemma cleanElems_push:
  "e \<noteq> [] \<Longrightarrow> e \<noteq> ''.'' \<Longrightarrow> e \<noteq> ''..'' \<Longrightarrow>
   cleanElems rooted (e # es) out = cleanElems rooted es (e # out)"
  by simp

lemma cleanElems_up_root: "cleanElems True (''..'' # es) [] = cleanElems True es []"
  by simp

lemma cleanElems_up_start: "cleanElems False (''..'' # es) [] = cleanElems False es [''..'']"
  by simp

lemma cleanElems_up_pop:
  "t \<noteq> ''..'' \<Longrightarrow> cleanElems rooted (''..'' # es) (t # ts) = cleanElems rooted es ts"
  by simp

lemma cleanElems_up_keep:
  "cleanElems rooted (''..'' # es) (''..'' # ts) = cleanElems rooted es (''..'' # ''..'' # ts)"
  by simp

lemma cleanElems_rooted_plain:
  "\<forall>e \<in> set out. plainElem e \<Longrightarrow> \<forall>e \<in> set xs. CHR ''/'' \<notin> set e \<Longrightarrow>
   \<forall>e \<in> set (cleanElems True xs out). plainElem e"
proof (induction xs arbitrary: out)
  case Nil
  then show ?case by simp
next
  case (Cons x xs)
  note IH = Cons.IH and outPlain = Cons.prems(1) and noSep = Cons.prems(2)
  have rest: "\<forall>e \<in> set xs. CHR ''/'' \<notin> set e" using noSep by simp
  show ?case
  proof (cases "x = [] \<or> x = ''.''")
    case True
    show ?thesis
      unfolding cleanElems_skip [OF True] by (rule IH [OF outPlain rest])
  next
    case False
    show ?thesis
    proof (cases "x = ''..''")
      case True
      show ?thesis
      proof (cases out)
        case Nil
        show ?thesis
          unfolding True Nil cleanElems_up_root by (rule IH) (simp_all add: rest)
      next
        case (Cons t ts)
        have t: "t \<noteq> ''..''" using outPlain Cons by (simp add: plainElem_def)
        have ts: "\<forall>e \<in> set ts. plainElem e" using outPlain Cons by simp
        show ?thesis
          unfolding True Cons cleanElems_up_pop [OF t] by (rule IH [OF ts rest])
      qed
    next
      case dd: False
      have x: "x \<noteq> []" "x \<noteq> ''.''" using False by simp_all
      have "plainElem x" using x dd noSep by (simp add: plainElem_def)
      then have push: "\<forall>e \<in> set (x # out). plainElem e" using outPlain by simp
      show ?thesis
        unfolding cleanElems_push [OF x dd] by (rule IH [OF push rest])
    qed
  qed
qed

lemma cleanElems_elems:
  "\<forall>e \<in> set out. e \<noteq> [] \<and> CHR ''/'' \<notin> set e \<Longrightarrow> \<forall>e \<in> set xs. CHR ''/'' \<notin> set e \<Longrightarrow>
   \<forall>e \<in> set (cleanElems rooted xs out). e \<noteq> [] \<and> CHR ''/'' \<notin> set e"
proof (induction xs arbitrary: out)
  case Nil
  then show ?case by simp
next
  case (Cons x xs)
  note IH = Cons.IH and outOk = Cons.prems(1) and noSep = Cons.prems(2)
  have rest: "\<forall>e \<in> set xs. CHR ''/'' \<notin> set e" using noSep by simp
  have nosep: "CHR ''/'' \<notin> set x" using noSep by simp
  show ?case
  proof (cases "x = [] \<or> x = ''.''")
    case True
    show ?thesis
      unfolding cleanElems_skip [OF True] by (rule IH [OF outOk rest])
  next
    case False
    then have x: "x \<noteq> []" "x \<noteq> ''.''" by simp_all
    have push: "\<forall>e \<in> set (x # out). e \<noteq> [] \<and> CHR ''/'' \<notin> set e"
      using outOk nosep x by simp
    show ?thesis
    proof (cases "x = ''..''")
      case True
      show ?thesis
      proof (cases out)
        case Nil
        show ?thesis
        proof (cases rooted)
          case True
          then have r: "rooted = True" by simp
          show ?thesis
            unfolding \<open>x = ''..''\<close> Nil r cleanElems_up_root
            by (rule IH [unfolded r]) (simp_all add: rest)
        next
          case False
          then have r: "rooted = False" by simp
          show ?thesis
            unfolding \<open>x = ''..''\<close> Nil r cleanElems_up_start
            by (rule IH [unfolded r]) (simp_all add: rest)
        qed
      next
        case (Cons t ts)
        have ts: "\<forall>e \<in> set ts. e \<noteq> [] \<and> CHR ''/'' \<notin> set e" using outOk Cons by simp
        show ?thesis
        proof (cases "t = ''..''")
          case tt: True
          have keep: "\<forall>e \<in> set (''..'' # ''..'' # ts). e \<noteq> [] \<and> CHR ''/'' \<notin> set e"
            using ts by simp
          show ?thesis
            unfolding True Cons tt cleanElems_up_keep by (rule IH [OF keep rest])
        next
          case False
          show ?thesis
            unfolding True Cons cleanElems_up_pop [OF False] by (rule IH [OF ts rest])
        qed
      qed
    next
      case dd: False
      show ?thesis
        unfolding cleanElems_push [OF x dd] by (rule IH [OF push rest])
    qed
  qed
qed

lemma IsAbs_iff: "IsAbs p \<longleftrightarrow> (\<exists>r. p = CHR ''/'' # r)"
  by (simp add: IsAbs_def HasPrefix_iff)

lemma joinSep_hd: "e \<noteq> [] \<Longrightarrow> joinSep (e # es) = hd e # tl (joinSep (e # es))"
  by (cases es; cases e) simp_all

lemma Clean_relative: "\<not> IsAbs p \<Longrightarrow> \<not> IsAbs (Clean p)"
proof (cases "p = []")
  case True
  then show ?thesis by (simp add: Clean_def IsAbs_iff)
next
  case False
  assume rel: "\<not> IsAbs p"
  define es where "es = cleanElems False (splitSep p) []"
  have ok: "\<forall>e \<in> set es. e \<noteq> [] \<and> CHR ''/'' \<notin> set e"
    unfolding es_def by (rule cleanElems_elems) (simp_all add: splitSep_no_sep)
  have c: "Clean p = (if es = [] then ''.'' else joinSep es)"
    using rel False by (simp add: Clean_def es_def Let_def)
  show ?thesis
  proof (cases es)
    case Nil
    then show ?thesis by (simp add: c IsAbs_iff)
  next
    case (Cons e rest)
    then have e: "e \<noteq> []" "hd e \<noteq> CHR ''/''"
      using ok by (cases e; auto)+
    have "joinSep es = hd e # tl (joinSep es)"
      unfolding Cons by (rule joinSep_hd [OF e(1)])
    then obtain r where "joinSep es = hd e # r" by blast
    then have "\<not> IsAbs (joinSep es)" using e(2) by (simp add: IsAbs_iff)
    then show ?thesis using Cons by (simp add: c)
  qed
qed

lemma cleanElems_of_plain:
  "\<forall>e \<in> set xs. plainElem e \<Longrightarrow> cleanElems True xs out = rev out @ xs"
proof (induction xs arbitrary: out)
  case Nil
  then show ?case by simp
next
  case (Cons x xs)
  then have x: "x \<noteq> []" "x \<noteq> ''.''" "x \<noteq> ''..''" by (simp_all add: plainElem_def)
  have "cleanElems True xs (x # out) = rev (x # out) @ xs" using Cons by simp
  then show ?case unfolding cleanElems_push [OF x] by simp
qed

lemma Clean_rooted_idem:
  assumes "IsAbs p"
  shows "Clean (Clean p) = Clean p" and "IsAbs (Clean p)"
proof -
  define es where "es = cleanElems True (splitSep p) []"
  have p: "p \<noteq> []" using assms by (auto simp: IsAbs_def HasPrefix_def)
  have c: "Clean p = CHR ''/'' # joinSep es"
    using assms p by (simp add: Clean_def es_def Let_def)
  have plain: "\<forall>e \<in> set es. plainElem e"
    unfolding es_def by (rule cleanElems_rooted_plain) (simp_all add: splitSep_no_sep)
  show abs: "IsAbs (Clean p)" by (simp add: c IsAbs_def HasPrefix_def)
  have "cleanElems True (splitSep (CHR ''/'' # joinSep es)) [] = es"
  proof (cases "es = []")
    case True
    then show ?thesis by simp
  next
    case False
    have "splitSep (joinSep es) = es"
      using False plain by (intro splitSep_joinSep) (auto simp: plainElem_def)
    then show ?thesis using plain by (simp add: cleanElems_of_plain)
  qed
  then show "Clean (Clean p) = Clean p"
    using abs unfolding c by (simp add: Clean_def Let_def)
qed

lemma Abs_of_absolute:
  assumes "Abs wd p = Some a" and "IsAbs a"
  shows "Abs wd a = Some a"
proof (cases "IsAbs p")
  case True
  then show ?thesis using assms Clean_rooted_idem [OF True] by (auto simp: Abs_def)
next
  case False
  with assms obtain d where d: "wd = Some d" "a = Join [d, p]"
    by (auto simp: Abs_def split: option.splits)
  have "\<exists>q. a = Clean q"
    using d assms(2) by (cases "d = []"; cases "p = []") (auto simp: IsAbs_iff)
  then obtain q where q: "a = Clean q" by blast
  have "IsAbs q" using Clean_relative [of q] assms(2) q by auto
  then show ?thesis using Clean_rooted_idem [of q] q assms(2) by (simp add: Abs_def)
qed

section \<open>Affected modules\<close>

lemma inLocalModule_iff:
  "inLocalModule p ms \<longleftrightarrow> (\<exists>m. m \<in> set ms \<and> isInDirectory p (ResolvedPath m))"
  by (induction ms) auto

lemma resolveChanged_absolute: "IsAbs f \<Longrightarrow> resolveChanged wd f = Clean f"
  by (simp add: resolveChanged_def Abs_def)

lemma resolveChanged_relative:
  assumes "\<not> IsAbs f" and "IsAbs w"
  shows "resolveChanged (Some w) f = Join [w, f]"
proof -
  have w: "w \<noteq> []" using assms(2) by (auto simp: IsAbs_iff)
  have j: "Join [w, f] = Clean (w @ CHR ''/'' # f)" using w by simp
  have "IsAbs (w @ CHR ''/'' # f)" using assms(2) by (auto simp: IsAbs_iff)
  then have "IsAbs (Join [w, f])" "Clean (Join [w, f]) = Join [w, f]"
    unfolding j by (simp_all add: Clean_rooted_idem)
  then show ?thesis
    using assms(1) by (simp add: resolveChanged_def Abs_def del: Join.simps)
qed

text \<open>
  Claim C6.  \<open>IsAffected\<close> is true exactly when some changed path, made absolute, is in
  the root module's directory or in some local module's directory; on the empty list it is
  false.  Making a path absolute cleans an absolute path and joins a relative one to the
  working directory.
\<close>

theorem IsAffected_iff:
  "(IsAffected wd changedFiles output \<longleftrightarrow>
      (\<exists>f. f \<in> set changedFiles \<and>
         (isInDirectory (resolveChanged wd f) (ResolvedPath (RootModule output)) \<or>
          (\<exists>m. m \<in> set (LocalModules output) \<and>
               isInDirectory (resolveChanged wd f) (ResolvedPath m)))))
   \<and> \<not> IsAffected wd [] output
   \<and> (\<forall>f. IsAbs f \<longrightarrow> resolveChanged wd f = Clean f)
   \<and> (\<forall>f cwd. \<not> IsAbs f \<and> IsAbs cwd \<longrightarrow> resolveChanged (Some cwd) f = Join [cwd, f])"
proof -
  have "IsAffected wd changedFiles output \<longleftrightarrow>
      (\<exists>f. f \<in> set changedFiles \<and>
         (isInDirectory (resolveChanged wd f) (ResolvedPath (RootModule output)) \<or>
          inLocalModule (resolveChanged wd f) (LocalModules output)))"
    by (induction changedFiles) (auto simp: Let_def)
  then show ?thesis
    using resolveChanged_absolute resolveChanged_relative
    by (simp add: inLocalModule_iff del: Join.simps)
qed

theorem IsAffected_iff_witness:
  "IsAffected (Some ''/t'') [''README.md'', ''modules/vpc/main.tf''] outTest
   \<and> resolveChanged (Some ''/t'') ''modules/vpc/main.tf'' = Join [''/t'', ''modules/vpc/main.tf'']
   \<and> resolveChanged (Some ''/t'') ''/t/root/../root/main.tf'' = Clean ''/t/root/../root/main.tf''
   \<and> \<not> IsAffected (Some ''/t'') [] outTest"
proof -
  let ?vpc = "\<lparr>Name = ''vpc'', Source = ''../modules/vpc'', ResolvedPath = ''/t/modules/vpc'',
           Files = [''/t/modules/vpc/main.tf'', ''/t/modules/vpc/variables.tf'']\<rparr>"
  have rel: "\<not> IsAbs ''modules/vpc/main.tf''" and wd: "IsAbs ''/t''"
    and abs: "IsAbs ''/t/root/../root/main.tf''"
    by code_simp+
  have under: "isInDirectory (resolveChanged (Some ''/t'') ''modules/vpc/main.tf'') (ResolvedPath ?vpc)"
    by code_simp
  have mem: "?vpc \<in> set (LocalModules outTest)" by (simp add: outTest_def)
  have f: "''modules/vpc/main.tf'' \<in> set [''README.md'', ''modules/vpc/main.tf'']" by simp
  note inst = IsAffected_iff [of "Some ''/t''" "[''README.md'', ''modules/vpc/main.tf'']" outTest]
  have "IsAffected (Some ''/t'') [''README.md'', ''modules/vpc/main.tf''] outTest"
    using inst under mem f by blast
  moreover have "resolveChanged (Some ''/t'') ''modules/vpc/main.tf'' =
      Join [''/t'', ''modules/vpc/main.tf'']"
    using inst rel wd by blast
  moreover have "resolveChanged (Some ''/t'') ''/t/root/../root/main.tf'' =
      Clean ''/t/root/../root/main.tf''"
    using inst abs by blast
  moreover have "\<not> IsAffected (Some ''/t'') [] outTest"
    using IsAffected_iff [of "Some ''/t''" "[]" outTest] by blast
  ultimately show ?thesis by blast
qed

section \<open>The traversal step by step\<close>

lemma analyzeRecursive_Suc:
  "analyzeRecursive (Suc n) fs dir calledFrom st =
     (case Abs (getwd fs) dir of
        None \<Rightarrow> Some (Some AbsFailed, st)
      | Some absDir \<Rightarrow>
          if absDir \<in> visited st then Some (None, st)
          else (case LoadModule fs absDir of
                  None \<Rightarrow> Some (Some (LoadModuleFailed absDir), markVisited absDir st)
                | Some calls \<Rightarrow>
                    map_option (Pair None)
                      (rangeModuleCalls n fs absDir calledFrom calls (markVisited absDir st))))"
  by (simp add: markVisited_def Let_def split: option.splits)

lemma range_remote:
  "\<not> isLocalPath (callSource call) \<Longrightarrow>
   rangeModuleCalls n fs absDir calledFrom ((name, call) # rest) st =
     rangeModuleCalls n fs absDir calledFrom rest (addRemote name call calledFrom st)"
  by (simp add: addRemote_def)

lemma range_unlisted:
  "isLocalPath (callSource call) \<Longrightarrow>
   listTerraformFiles fs (resolveCall fs absDir call) = None \<Longrightarrow>
   rangeModuleCalls n fs absDir calledFrom ((name, call) # rest) st =
     rangeModuleCalls n fs absDir calledFrom rest
       (warn (CannotRead (resolveCall fs absDir call)) st)"
  by (simp add: warn_def)

lemma range_listed:
  "isLocalPath (callSource call) \<Longrightarrow>
   listTerraformFiles fs (resolveCall fs absDir call) = Some files \<Longrightarrow>
   rangeModuleCalls n fs absDir calledFrom ((name, call) # rest) st =
     (case analyzeRecursive n fs (resolveCall fs absDir call) name
             (addLocal name call (resolveCall fs absDir call) files st) of
        None \<Rightarrow> None
      | Some (e, st') \<Rightarrow>
          rangeModuleCalls n fs absDir calledFrom rest
            (afterRecursion (resolveCall fs absDir call) e st'))"
  by (simp add: addLocal_def afterRecursion_def warn_def split: option.splits)

lemmas range_steps = range_remote range_unlisted range_listed

lemma traversal_rule:
  assumes absFailed: "\<And>dir calledFrom st.
      Abs (getwd fs) dir = None \<Longrightarrow> P dir calledFrom st (Some AbsFailed) st"
    and seen: "\<And>dir calledFrom st absDir.
      Abs (getwd fs) dir = Some absDir \<Longrightarrow> absDir \<in> visited st \<Longrightarrow> P dir calledFrom st None st"
    and loadFailed: "\<And>dir calledFrom st absDir.
      Abs (getwd fs) dir = Some absDir \<Longrightarrow> absDir \<notin> visited st \<Longrightarrow> LoadModule fs absDir = None \<Longrightarrow>
      P dir calledFrom st (Some (LoadModuleFailed absDir)) (markVisited absDir st)"
    and loaded: "\<And>dir calledFrom st absDir calls st'.
      Abs (getwd fs) dir = Some absDir \<Longrightarrow> absDir \<notin> visited st \<Longrightarrow>
      LoadModule fs absDir = Some calls \<Longrightarrow>
      Q absDir calledFrom calls (markVisited absDir st) st' \<Longrightarrow>
      P dir calledFrom st None st'"
    and finished: "\<And>absDir calledFrom st. Q absDir calledFrom [] st st"
    and remote: "\<And>absDir calledFrom name call rest st st'.
      \<not> isLocalPath (callSource call) \<Longrightarrow>
      Q absDir calledFrom rest (addRemote name call calledFrom st) st' \<Longrightarrow>
      Q absDir calledFrom ((name, call) # rest) st st'"
    and unlisted: "\<And>absDir calledFrom name call rest st st'.
      isLocalPath (callSource call) \<Longrightarrow>
      listTerraformFiles fs (resolveCall fs absDir call) = None \<Longrightarrow>
      Q absDir calledFrom rest (warn (CannotRead (resolveCall fs absDir call)) st) st' \<Longrightarrow>
      Q absDir calledFrom ((name, call) # rest) st st'"
    and listed: "\<And>absDir calledFrom name call rest st files e st1 st'.
      isLocalPath (callSource call) \<Longrightarrow>
      listTerraformFiles fs (resolveCall fs absDir call) = Some files \<Longrightarrow>
      P (resolveCall fs absDir call) name
        (addLocal name call (resolveCall fs absDir call) files st) e st1 \<Longrightarrow>
      Q absDir calledFrom rest (afterRecursion (resolveCall fs absDir call) e st1) st' \<Longrightarrow>
      Q absDir calledFrom ((name, call) # rest) st st'"
  shows "(analyzeRecursive n fs dir calledFrom st = Some (e, st') \<longrightarrow> P dir calledFrom st e st')
       \<and> (rangeModuleCalls m fs absDir calledFrom' calls st2 = Some st2' \<longrightarrow>
            Q absDir calledFrom' calls st2 st2')"
proof -
  have loop: "rangeModuleCalls k fs d c cs s = Some s' \<Longrightarrow> Q d c cs s s'"
    if IH: "\<And>dir calledFrom st e st'.
              analyzeRecursive k fs dir calledFrom st = Some (e, st') \<Longrightarrow> P dir calledFrom st e st'"
    for k d c cs s s'
  proof (induction cs arbitrary: s)
    case Nil
    then show ?case using finished by simp
  next
    case (Cons nc rest)
    obtain name call where nc: "nc = (name, call)" by (cases nc)
    show ?case
    proof (cases "isLocalPath (callSource call)")
      case False
      then show ?thesis
        using Cons nc remote by (simp add: range_remote del: rangeModuleCalls.simps)
    next
      case True
      show ?thesis
      proof (cases "listTerraformFiles fs (resolveCall fs d call)")
        case None
        then show ?thesis
          using Cons nc True unlisted by (simp add: range_unlisted del: rangeModuleCalls.simps)
      next
        case (Some files)
        from Cons.prems nc True Some obtain e1 s1 where
          rec: "analyzeRecursive k fs (resolveCall fs d call) name
                  (addLocal name call (resolveCall fs d call) files s) = Some (e1, s1)" and
          rest: "rangeModuleCalls k fs d c rest (afterRecursion (resolveCall fs d call) e1 s1) = Some s'"
          by (auto simp: range_listed simp del: rangeModuleCalls.simps split: option.splits)
        show ?thesis
          unfolding nc
          by (rule listed [OF True Some IH [OF rec] Cons.IH [OF rest]])
      qed
    qed
  qed
  have visit: "analyzeRecursive k fs dir calledFrom st = Some (e, st') \<Longrightarrow> P dir calledFrom st e st'"
    for k dir calledFrom st e st'
  proof (induction k arbitrary: dir calledFrom st e st')
    case 0
    then show ?case by simp
  next
    case (Suc k)
    show ?case
    proof (cases "Abs (getwd fs) dir")
      case None
      then show ?thesis
        using Suc.prems absFailed by (auto simp: analyzeRecursive_Suc simp del: analyzeRecursive.simps)
    next
      case (Some absDir)
      show ?thesis
      proof (cases "absDir \<in> visited st")
        case True
        then show ?thesis
          using Suc.prems Some seen by (auto simp: analyzeRecursive_Suc simp del: analyzeRecursive.simps)
      next
        case False
        show ?thesis
        proof (cases "LoadModule fs absDir")
          case None
          then show ?thesis
            using Suc.prems Some False loadFailed
            by (auto simp: analyzeRecursive_Suc simp del: analyzeRecursive.simps)
        next
          case (Some calls)
          from Suc.prems \<open>Abs (getwd fs) dir = Some absDir\<close> False Some
          have e: "e = None" and
            r: "rangeModuleCalls k fs absDir calledFrom calls (markVisited absDir st) = Some st'"
            by (auto simp: analyzeRecursive_Suc simp del: analyzeRecursive.simps)
          show ?thesis
            unfolding e
            by (rule loaded [OF \<open>Abs (getwd fs) dir = Some absDir\<close> False Some
                  loop [OF Suc.IH r]])
        qed
      qed
    qed
  qed
  have "rangeModuleCalls m fs absDir calledFrom' calls st2 = Some st2' \<Longrightarrow>
          Q absDir calledFrom' calls st2 st2'"
    by (rule loop [where k = m]) (rule visit)
  then show ?thesis using visit by blast
qed

lemma traversal_grows:
  "(analyzeRecursive n fs dir calledFrom st = Some (e, st') \<longrightarrow>
     visited st \<subseteq> visited st' \<and> prefix (localModules st) (localModules st') \<and>
     prefix (remoteModules st) (remoteModules st') \<and> prefix (warnings st) (warnings st'))
   \<and> (rangeModuleCalls m fs absDir calledFrom' calls st2 = Some st2' \<longrightarrow>
     visited st2 \<subseteq> visited st2' \<and> prefix (localModules st2) (localModules st2') \<and>
     prefix (remoteModules st2) (remoteModules st2') \<and> prefix (warnings st2) (warnings st2'))"
proof (rule traversal_rule
    [where P = "\<lambda>dir calledFrom st e st'.
        visited st \<subseteq> visited st' \<and> prefix (localModules st) (localModules st') \<and>
        prefix (remoteModules st) (remoteModules st') \<and> prefix (warnings st) (warnings st')"
      and Q = "\<lambda>absDir calledFrom calls st st'.
        visited st \<subseteq> visited st' \<and> prefix (localModules st) (localModules st') \<and>
        prefix (remoteModules st) (remoteModules st') \<and> prefix (warnings st) (warnings st')"],
    goal_cases)
  case 1 then show ?case by simp
next
  case 2 then show ?case by simp
next
  case 3 then show ?case by (auto simp: markVisited_def)
next
  case 4 then show ?case by (auto simp: markVisited_def)
next
  case 5 then show ?case by simp
next
  case 6 then show ?case by (auto simp: addRemote_def dest: append_prefixD)
next
  case 7 then show ?case by (auto simp: warn_def dest: append_prefixD)
next
  case (8 absDir calledFrom name call rest st files e st1 st')
  then show ?case
    by (cases e) (auto simp: addLocal_def afterRecursion_def warn_def dest: append_prefixD
        intro: prefix_order.order_trans)
qed

lemma analyzeRecursive_visited_mono:
  "analyzeRecursive n fs dir calledFrom st = Some (e, st') \<Longrightarrow> visited st \<subseteq> visited st'"
  using traversal_grows by blast

section \<open>The depth bound\<close>

lemma fuel_Suc:
  "(\<forall>dir calledFrom st r. analyzeRecursive n fs dir calledFrom st = Some r \<longrightarrow>
       analyzeRecursive (Suc n) fs dir calledFrom st = Some r)
   \<and> (\<forall>absDir calledFrom calls st r. rangeModuleCalls n fs absDir calledFrom calls st = Some r \<longrightarrow>
       rangeModuleCalls (Suc n) fs absDir calledFrom calls st = Some r)"
proof (induction n)
  case 0
  have "rangeModuleCalls 0 fs absDir calledFrom calls st = Some r \<Longrightarrow>
        rangeModuleCalls (Suc 0) fs absDir calledFrom calls st = Some r"
    for absDir calledFrom calls st r
  proof (induction calls arbitrary: st)
    case Nil
    then show ?case by simp
  next
    case (Cons nc rest)
    obtain name call where nc: "nc = (name, call)" by (cases nc)
    show ?case
      using Cons unfolding nc
      by (cases "isLocalPath (callSource call)";
          cases "listTerraformFiles fs (resolveCall fs absDir call)")
         (simp_all add: range_steps del: rangeModuleCalls.simps)
  qed
  then show ?case by simp
next
  case (Suc n)
  have visit: "analyzeRecursive (Suc n) fs dir calledFrom st = Some r \<Longrightarrow>
        analyzeRecursive (Suc (Suc n)) fs dir calledFrom st = Some r" for dir calledFrom st r
    using Suc
    by (subst analyzeRecursive_Suc, subst (asm) analyzeRecursive_Suc)
       (auto split: option.splits if_splits)
  have "rangeModuleCalls (Suc n) fs absDir calledFrom calls st = Some r \<Longrightarrow>
        rangeModuleCalls (Suc (Suc n)) fs absDir calledFrom calls st = Some r"
    for absDir calledFrom calls st r
  proof (induction calls arbitrary: st)
    case Nil
    then show ?case by simp
  next
    case (Cons nc rest)
    obtain name call where nc: "nc = (name, call)" by (cases nc)
    show ?case
    proof (cases "isLocalPath (callSource call)")
      case False
      then show ?thesis using Cons unfolding nc
        by (simp add: range_steps del: rangeModuleCalls.simps)
    next
      case True
      show ?thesis
      proof (cases "listTerraformFiles fs (resolveCall fs absDir call)")
        case None
        then show ?thesis using Cons True unfolding nc
          by (simp add: range_steps del: rangeModuleCalls.simps)
      next
        case (Some files)
        then show ?thesis using Cons True visit unfolding nc
          by (auto simp: range_listed simp del: rangeModuleCalls.simps analyzeRecursive.simps
              split: option.splits)
      qed
    qed
  qed
  with visit show ?case by blast
qed

lemma analyzeRecursive_fuel_mono:
  "analyzeRecursive n fs dir calledFrom st = Some r \<Longrightarrow> n \<le> m \<Longrightarrow>
   analyzeRecursive m fs dir calledFrom st = Some r"
proof (induction m)
  case 0
  then show ?case by simp
next
  case (Suc m)
  show ?case
  proof (cases "n = Suc m")
    case True
    with Suc show ?thesis by simp
  next
    case False
    with Suc have "analyzeRecursive m fs dir calledFrom st = Some r" by simp
    then show ?thesis using fuel_Suc by blast
  qed
qed

lemma enough_fuel:
  assumes fin: "finite A"
    and closed: "\<And>d a. listTerraformFiles fs d \<noteq> None \<Longrightarrow> Abs (getwd fs) d = Some a \<Longrightarrow> a \<in> A"
  shows "card (A - visited st) < n \<Longrightarrow> listTerraformFiles fs dir \<noteq> None \<Longrightarrow>
         analyzeRecursive n fs dir calledFrom st \<noteq> None"
proof (induction n arbitrary: dir calledFrom st)
  case 0
  then show ?case by simp
next
  case (Suc n)
  have loop: "card (A - visited s) < n \<Longrightarrow> rangeModuleCalls n fs absDir c calls s \<noteq> None"
    for absDir c calls s
  proof (induction calls arbitrary: s)
    case Nil
    then show ?case by simp
  next
    case (Cons nc rest)
    obtain name call where nc: "nc = (name, call)" by (cases nc)
    show ?case
    proof (cases "isLocalPath (callSource call)")
      case False
      then show ?thesis using Cons unfolding nc
        by (simp add: range_steps addRemote_def del: rangeModuleCalls.simps)
    next
      case True
      define x where "x = resolveCall fs absDir call"
      show ?thesis
      proof (cases "listTerraformFiles fs x")
        case None
        then show ?thesis using Cons True unfolding nc x_def
          by (simp add: range_steps warn_def del: rangeModuleCalls.simps)
      next
        case (Some files)
        have "card (A - visited (addLocal name call x files s)) < n"
          using Cons.prems by (simp add: addLocal_def)
        then have "analyzeRecursive n fs x name (addLocal name call x files s) \<noteq> None"
          using Suc.IH Some by simp
        then obtain e s1 where
          rec: "analyzeRecursive n fs x name (addLocal name call x files s) = Some (e, s1)"
          by auto
        have "visited s \<subseteq> visited (afterRecursion x e s1)"
          using analyzeRecursive_visited_mono [OF rec]
          by (simp add: addLocal_def afterRecursion_def warn_def split: option.splits)
        then have "A - visited (afterRecursion x e s1) \<subseteq> A - visited s" by blast
        then have "card (A - visited (afterRecursion x e s1)) \<le> card (A - visited s)"
          using fin by (simp add: card_mono)
        then have "rangeModuleCalls n fs absDir c rest (afterRecursion x e s1) \<noteq> None"
          using Cons.IH Cons.prems by simp
        then show ?thesis
          using True Some rec unfolding nc x_def
          by (simp add: range_listed del: rangeModuleCalls.simps)
      qed
    qed
  qed
  show ?case
  proof (cases "Abs (getwd fs) dir")
    case None
    then show ?thesis by simp
  next
    case (Some absDir)
    show ?thesis
    proof (cases "absDir \<in> visited st")
      case True
      then show ?thesis using Some by simp
    next
      case False
      have "absDir \<in> A" using closed Suc.prems(2) Some by blast
      then have "card (A - visited (markVisited absDir st)) < n"
        using False Suc.prems(1) fin
        by (simp add: markVisited_def card_Diff_insert)
           (metis Diff_iff card_Diff_singleton card_gt_0_iff diff_Suc_less empty_iff finite_Diff
             less_Suc_eq_le less_le_trans not_less)
      then show ?thesis
        using loop [of "markVisited absDir st"] Some False
        by (simp add: analyzeRecursive_Suc del: analyzeRecursive.simps split: option.splits)
    qed
  qed
qed

lemma listTerraformFiles_dom:
  "listTerraformFiles fs d \<noteq> None \<Longrightarrow> d \<in> fst ` set (dirs fs)"
  by (auto simp: listTerraformFiles_def ReadDir_def split: option.splits dest: map_of_SomeD
      intro: rev_image_eqI)

lemma Analyze_terminates:
  assumes "length (dirs fs) < n"
  shows "Analyze n fs dir \<noteq> None"
proof (cases "Abs (getwd fs) dir")
  case None
  then show ?thesis by (simp add: Analyze_def)
next
  case (Some absDir)
  show ?thesis
  proof (cases "listTerraformFiles fs absDir")
    case None
    then show ?thesis using Some by (simp add: Analyze_def)
  next
    case (Some rootFiles)
    define A where "A = (\<lambda>d. the (Abs (getwd fs) d)) ` fst ` set (dirs fs)"
    have fin: "finite A" by (simp add: A_def)
    have "card A \<le> card (fst ` set (dirs fs))"
      unfolding A_def by (rule card_image_le) simp
    also have "\<dots> \<le> card (set (dirs fs))" by (rule card_image_le) simp
    also have "\<dots> \<le> length (dirs fs)" by (rule card_length)
    finally have cardA: "card A < n" using assms by simp
    have closed: "\<And>d a. listTerraformFiles fs d \<noteq> None \<Longrightarrow> Abs (getwd fs) d = Some a \<Longrightarrow> a \<in> A"
      using listTerraformFiles_dom unfolding A_def by force
    have "card (A - visited \<lparr>visited = {}, localModules = [], remoteModules = [], warnings = []\<rparr>) < n"
      using cardA by simp
    then have "analyzeRecursive n fs absDir []
        \<lparr>visited = {}, localModules = [], remoteModules = [], warnings = []\<rparr> \<noteq> None"
      using enough_fuel [OF fin closed] Some by simp
    then show ?thesis
      using \<open>Abs (getwd fs) dir = Some absDir\<close> Some
      by (auto simp: Analyze_def split: option.splits)
  qed
qed

lemma Analyze_fuel_mono:
  assumes "Analyze n fs dir = Some r" and "n \<le> m"
  shows "Analyze m fs dir = Some r"
proof (cases "Abs (getwd fs) dir")
  case None
  then show ?thesis using assms by (simp add: Analyze_def)
next
  case (Some absDir)
  show ?thesis
  proof (cases "listTerraformFiles fs absDir")
    case None
    then show ?thesis using Some assms by (simp add: Analyze_def)
  next
    case (Some rootFiles)
    let ?st0 = "\<lparr>visited = {}, localModules = [], remoteModules = [], warnings = []\<rparr>"
    from assms(1) \<open>Abs (getwd fs) dir = Some absDir\<close> Some
    obtain q where q: "analyzeRecursive n fs absDir [] ?st0 = Some q"
      by (auto simp: Analyze_def split: option.splits)
    have "analyzeRecursive m fs absDir [] ?st0 = Some q"
      by (rule analyzeRecursive_fuel_mono [OF q assms(2)])
    then show ?thesis
      using assms(1) q \<open>Abs (getwd fs) dir = Some absDir\<close> Some
      by (simp add: Analyze_def)
  qed
qed

section \<open>Errors of the traversal\<close>

text \<open>
  Claim C4.  A visit of a directory whose configuration the parser rejects returns an
  error that names that directory, and when that directory is the root the whole of
  \<open>Analyze\<close> fails with it.  When the recursive visit of a local submodule returns an
  error, the loop of the calling directory records a warning and goes on with the remaining
  calls; so \<open>Analyze\<close> succeeds whenever the root can be listed and parsed, whatever fails
  below.
\<close>

theorem parse_error_fatal_only_at_root:
  assumes root: "Abs (getwd fs) dir = Some absDir"
    and absolute: "IsAbs absDir"
    and listed: "listTerraformFiles fs absDir = Some rootFiles"
    and fuel: "length (dirs fs) < n"
  shows "(LoadModule fs absDir = None \<longrightarrow> Analyze n fs dir = Some (Inl (LoadModuleFailed absDir)))
    \<and> (LoadModule fs absDir \<noteq> None \<longrightarrow> (\<exists>out ws. Analyze n fs dir = Some (Inr (out, ws))))
    \<and> (\<forall>d calledFrom st a.
          Abs (getwd fs) d = Some a \<and> a \<notin> visited st \<and> LoadModule fs a = None \<longrightarrow>
          analyzeRecursive n fs d calledFrom st =
            Some (Some (LoadModuleFailed a), markVisited a st))
    \<and> (\<forall>d calledFrom name call rest st files err st1.
          isLocalPath (callSource call) \<and>
          listTerraformFiles fs (resolveCall fs d call) = Some files \<and>
          analyzeRecursive n fs (resolveCall fs d call) name
            (addLocal name call (resolveCall fs d call) files st) = Some (Some err, st1) \<longrightarrow>
          rangeModuleCalls n fs d calledFrom ((name, call) # rest) st =
            rangeModuleCalls n fs d calledFrom rest
              (warn (FailedToAnalyze (resolveCall fs d call) err) st1))"
proof -
  let ?st0 = "\<lparr>visited = {}, localModules = [], remoteModules = [], warnings = []\<rparr>"
  obtain k where n: "n = Suc k" using fuel by (cases n) simp_all
  have canonical: "Abs (getwd fs) absDir = Some absDir"
    by (rule Abs_of_absolute [OF root absolute])
  have step: "analyzeRecursive n fs d calledFrom st =
            Some (Some (LoadModuleFailed a), markVisited a st)"
    if "Abs (getwd fs) d = Some a" "a \<notin> visited st" "LoadModule fs a = None"
    for d calledFrom st a
    using that unfolding n by (simp add: analyzeRecursive_Suc del: analyzeRecursive.simps)
  have fatal: "Analyze n fs dir = Some (Inl (LoadModuleFailed absDir))"
    if "LoadModule fs absDir = None"
    using step [OF canonical _ that, of ?st0 "[]"] root listed by (simp add: Analyze_def)
  have ok: "\<exists>out ws. Analyze n fs dir = Some (Inr (out, ws))" if "LoadModule fs absDir \<noteq> None"
  proof -
    from that obtain calls where calls: "LoadModule fs absDir = Some calls" by auto
    have "Analyze n fs dir \<noteq> None" by (rule Analyze_terminates [OF fuel])
    then show ?thesis
      using root listed canonical calls unfolding n
      by (auto simp: Analyze_def analyzeRecursive_Suc simp del: analyzeRecursive.simps
          split: option.splits)
  qed
  have downgrade: "rangeModuleCalls n fs d calledFrom ((name, call) # rest) st =
            rangeModuleCalls n fs d calledFrom rest
              (warn (FailedToAnalyze (resolveCall fs d call) err) st1)"
    if "isLocalPath (callSource call)"
      "listTerraformFiles fs (resolveCall fs d call) = Some files"
      "analyzeRecursive n fs (resolveCall fs d call) name
            (addLocal name call (resolveCall fs d call) files st) = Some (Some err, st1)"
    for d calledFrom name call rest st files err st1
    using that
    by (simp add: range_listed afterRecursion_def
        del: analyzeRecursive.simps rangeModuleCalls.simps)
  show ?thesis using fatal ok step downgrade by blast
qed

theorem parse_error_fatal_only_at_root_witness:
  "(\<exists>out ws. Analyze 4 fsBroken ''root'' = Some (Inr (out, ws)))
   \<and> (case Analyze 4 fsBroken ''root'' of
        Some (Inr (out, ws)) \<Rightarrow>
          map ResolvedPath (LocalModules out) = [''/w/root/bad'', ''/w/root/good''] \<and>
          map remoteName (RemoteModules out) = [''eks''] \<and>
          ws = [FailedToAnalyze ''/w/root/bad'' (LoadModuleFailed ''/w/root/bad''),
                CannotRead ''/w/root/gone'']
      | _ \<Rightarrow> False)
   \<and> Analyze 4 fsBroken ''root/bad'' = Some (Inl (LoadModuleFailed ''/w/root/bad''))"
proof -
  have h1: "Abs (getwd fsBroken) ''root'' = Some ''/w/root''" by code_simp
  have h2: "IsAbs ''/w/root''" by code_simp
  have h3: "listTerraformFiles fsBroken ''/w/root'' = Some [''/w/root/main.tf'']" by code_simp
  have h4: "length (dirs fsBroken) < 4" by code_simp
  have h5: "LoadModule fsBroken ''/w/root'' \<noteq> None" by (simp add: LoadModule_def fsBroken_def)
  have g1: "Abs (getwd fsBroken) ''root/bad'' = Some ''/w/root/bad''" by code_simp
  have g2: "IsAbs ''/w/root/bad''" by code_simp
  have g3: "listTerraformFiles fsBroken ''/w/root/bad'' = Some [''/w/root/bad/main.tf'']"
    by code_simp
  have g5: "LoadModule fsBroken ''/w/root/bad'' = None" by (simp add: LoadModule_def fsBroken_def)
  have run: "case Analyze 4 fsBroken ''root'' of
        Some (Inr (out, ws)) \<Rightarrow>
          map ResolvedPath (LocalModules out) = [''/w/root/bad'', ''/w/root/good''] \<and>
          map remoteName (RemoteModules out) = [''eks''] \<and>
          ws = [FailedToAnalyze ''/w/root/bad'' (LoadModuleFailed ''/w/root/bad''),
                CannotRead ''/w/root/gone'']
      | _ \<Rightarrow> False"
    by code_simp
  show ?thesis
    using parse_error_fatal_only_at_root [OF h1 h2 h3 h4] h5
      parse_error_fatal_only_at_root [OF g1 g2 g3 h4] g5 run
    by blast
qed

text \<open>
  Claim C10.  \<open>Analyze\<close> fails when the files of the root directory cannot be listed, with
  an error that is neither the failure to make the path absolute nor a parse failure; the
  same listing failure for the directory of a local call is a warning, and the loop goes on
  with the next call without a record and without a recursive visit.
\<close>

theorem root_listing_failure_is_fatal:
  assumes root: "Abs (getwd fs) dir = Some absDir"
    and unlisted: "listTerraformFiles fs absDir = None"
  shows "Analyze n fs dir = Some (Inl (ListRootFailed absDir))
    \<and> ListRootFailed absDir \<noteq> AbsFailed
    \<and> (\<forall>d. ListRootFailed absDir \<noteq> LoadModuleFailed d)
    \<and> (\<forall>d calledFrom name call rest st.
          isLocalPath (callSource call) \<and>
          listTerraformFiles fs (resolveCall fs d call) = None \<longrightarrow>
          rangeModuleCalls n fs d calledFrom ((name, call) # rest) st =
            rangeModuleCalls n fs d calledFrom rest
              (warn (CannotRead (resolveCall fs d call)) st))"
  using assms by (simp add: Analyze_def range_unlisted del: rangeModuleCalls.simps)

theorem root_listing_failure_is_fatal_witness:
  "Analyze 3 fsMissing ''root/gone'' = Some (Inl (ListRootFailed ''/w/root/gone''))
   \<and> (case Analyze 3 fsMissing ''root'' of
        Some (Inr (out, ws)) \<Rightarrow>
          map ResolvedPath (LocalModules out) = [''/w/kept''] \<and>
          ws = [CannotRead ''/w/root/gone'']
      | _ \<Rightarrow> False)"
proof -
  have h1: "Abs (getwd fsMissing) ''root/gone'' = Some ''/w/root/gone''" by code_simp
  have h2: "listTerraformFiles fsMissing ''/w/root/gone'' = None" by code_simp
  have run: "case Analyze 3 fsMissing ''root'' of
        Some (Inr (out, ws)) \<Rightarrow>
          map ResolvedPath (LocalModules out) = [''/w/kept''] \<and>
          ws = [CannotRead ''/w/root/gone'']
      | _ \<Rightarrow> False"
    by code_simp
  show ?thesis
    using root_listing_failure_is_fatal [OF h1 h2, of 3] run by blast
qed

section \<open>Filtering by changed paths\<close>

lemma markAffected_eq:
  "markAffected output p acc =
     acc \<union> {q. (q = ResolvedPath (RootModule output) \<and> isInDirectory p q) \<or>
              (\<exists>m. m \<in> set (LocalModules output) \<and> q = ResolvedPath m \<and> isInDirectory p q)}"
proof -
  have loop: "fold (\<lambda>localMod acc.
             if isInDirectory p (ResolvedPath localMod)
             then insert (ResolvedPath localMod) acc else acc) ms a =
        a \<union> {q. \<exists>m. m \<in> set ms \<and> q = ResolvedPath m \<and> isInDirectory p q}" for ms a
    by (induction ms arbitrary: a) auto
  show ?thesis unfolding markAffected_def loop by auto
qed

lemma affectedModulePaths_eq:
  "affectedModulePaths wd changedFiles output =
     {q. \<exists>f. f \<in> set changedFiles \<and>
          ((q = ResolvedPath (RootModule output) \<and> isInDirectory (resolveChanged wd f) q) \<or>
           (\<exists>m. m \<in> set (LocalModules output) \<and> q = ResolvedPath m \<and>
                isInDirectory (resolveChanged wd f) q))}"
proof -
  have "fold (markAffected output) (map (resolveChanged wd) fs) a =
     a \<union> {q. \<exists>f. f \<in> set fs \<and>
          ((q = ResolvedPath (RootModule output) \<and> isInDirectory (resolveChanged wd f) q) \<or>
           (\<exists>m. m \<in> set (LocalModules output) \<and> q = ResolvedPath m \<and>
                isInDirectory (resolveChanged wd f) q))}" for fs a
    by (induction fs arbitrary: a) (auto simp: markAffected_eq)
  then show ?thesis by (simp add: affectedModulePaths_def)
qed

lemma fold_appendUnseen_if:
  "fold (\<lambda>m acc. if P m then appendUnseen (Files m) acc else acc) ms
        (set (keepFirst xs), keepFirst xs) =
     (set (keepFirst (xs @ concat (map Files (filter P ms)))),
      keepFirst (xs @ concat (map Files (filter P ms))))"
  by (induction ms arbitrary: xs) (simp_all add: appendUnseen_dedup)

lemma FilterRelatedFiles_eq:
  "FilterRelatedFiles wd allFiles changedFiles output =
     keepFirst
       ((if ResolvedPath (RootModule output) \<in> affectedModulePaths wd changedFiles output
         then Files (RootModule output) else []) @
        concat (map Files
          (filter (\<lambda>m. ResolvedPath m \<in> affectedModulePaths wd changedFiles output)
             (LocalModules output))))"
proof -
  have start: "appendUnseen fs ({}, []) = (set (keepFirst fs), keepFirst fs)" for fs
    using appendUnseen_dedup [of fs "[]"] by (simp add: keepFirst_Nil)
  have empty: "({}, []) = (set (keepFirst ([]::string list)), keepFirst [])"
    by (simp add: keepFirst_Nil)
  show ?thesis
  proof (cases "ResolvedPath (RootModule output) \<in> affectedModulePaths wd changedFiles output")
    case True
    then show ?thesis
      by (simp add: FilterRelatedFiles_def Let_def start fold_appendUnseen_if)
  next
    case False
    then show ?thesis
      unfolding FilterRelatedFiles_def Let_def
      by (simp only: if_False empty fold_appendUnseen_if snd_conv append_Nil)
  qed
qed

lemma keepFirst_absorb: "set ys \<subseteq> set xs \<Longrightarrow> keepFirst (xs @ ys) = keepFirst xs"
proof -
  assume "set ys \<subseteq> set xs"
  then have "filter (\<lambda>y. y \<notin> set xs) ys = []" by (auto simp: filter_empty_conv)
  then show ?thesis by (simp add: keepFirst_append keepFirst_Nil)
qed

lemma keepFirst_distinct: "distinct xs \<Longrightarrow> keepFirst xs = xs"
  by (simp add: keepFirst_def distinct_remdups_id)

text \<open>
  Claim C5.  Let \<open>M\<close> be a local module of the output, and let there be a change under
  \<open>M\<close> only: the list of changed paths is not empty, each of its paths is in the
  directory of \<open>M\<close>, none is in the root's directory and none is in the directory of
  another local module.  Then \<open>FilterRelatedFiles\<close> returns the files of \<open>M\<close> and no
  others: the list of \<open>M\<close>'s files with repetitions removed, which is that list itself when
  it has none.
\<close>

theorem filter_to_changed_module:
  assumes member: "M \<in> set (LocalModules output)"
    and change: "changedFiles \<noteq> []"
    and under: "\<forall>f \<in> set changedFiles. isInDirectory (resolveChanged wd f) (ResolvedPath M)"
    and notRoot: "\<forall>f \<in> set changedFiles.
        \<not> isInDirectory (resolveChanged wd f) (ResolvedPath (RootModule output))"
    and notOther: "\<forall>f \<in> set changedFiles. \<forall>m \<in> set (LocalModules output).
        m \<noteq> M \<longrightarrow> \<not> isInDirectory (resolveChanged wd f) (ResolvedPath m)"
  shows "FilterRelatedFiles wd allFiles changedFiles output = keepFirst (Files M)
     \<and> set (FilterRelatedFiles wd allFiles changedFiles output) = set (Files M)
     \<and> (distinct (Files M) \<longrightarrow> FilterRelatedFiles wd allFiles changedFiles output = Files M)"
proof -
  let ?A = "affectedModulePaths wd changedFiles output"
  obtain f where f: "f \<in> set changedFiles" using change by (cases changedFiles) auto
  have root: "ResolvedPath (RootModule output) \<notin> ?A"
    using notRoot by (auto simp: affectedModulePaths_eq)
  have sel: "m \<in> set (LocalModules output) \<Longrightarrow> ResolvedPath m \<in> ?A \<longleftrightarrow> m = M" for m
    using member f under notRoot notOther by (auto simp: affectedModulePaths_eq)
  have "filter (\<lambda>m. ResolvedPath m \<in> ?A) (LocalModules output) =
        filter (\<lambda>m. m = M) (LocalModules output)"
    by (rule filter_cong) (simp_all add: sel)
  moreover have "keepFirst (concat (map Files (filter (\<lambda>m. m = M) ms))) = keepFirst (Files M)"
    if "M \<in> set ms" for ms
    using that
  proof (induction ms)
    case Nil
    then show ?case by simp
  next
    case (Cons m ms)
    show ?case
    proof (cases "m = M")
      case True
      have "set (concat (map Files (filter (\<lambda>m. m = M) ms))) \<subseteq> set (Files M)" by auto
      then show ?thesis using True by (simp add: keepFirst_absorb)
    next
      case False
      then show ?thesis using Cons by simp
    qed
  qed
  ultimately have eq: "FilterRelatedFiles wd allFiles changedFiles output = keepFirst (Files M)"
    using root member by (simp add: FilterRelatedFiles_eq)
  then show ?thesis by (simp add: set_keepFirst keepFirst_distinct)
qed

theorem filter_to_changed_module_witness:
  "FilterRelatedFiles (Some ''/t'') [] [''modules/vpc/main.tf''] outTest =
     [''/t/modules/vpc/main.tf'', ''/t/modules/vpc/variables.tf'']"
proof -
  let ?M = "\<lparr>Name = ''vpc'', Source = ''../modules/vpc'', ResolvedPath = ''/t/modules/vpc'',
           Files = [''/t/modules/vpc/main.tf'', ''/t/modules/vpc/variables.tf'']\<rparr>"
  have r: "resolveChanged (Some ''/t'') ''modules/vpc/main.tf'' = ''/t/modules/vpc/main.tf''"
    by code_simp
  have e1: "isInDirectory ''/t/modules/vpc/main.tf'' ''/t/modules/vpc''" by code_simp
  have e2: "\<not> isInDirectory ''/t/modules/vpc/main.tf'' ''/t/root''" by code_simp
  have e3: "\<not> isInDirectory ''/t/modules/vpc/main.tf'' ''/t/modules/iam''" by code_simp
  have h1: "?M \<in> set (LocalModules outTest)" by (simp add: outTest_def)
  have h2: "[''modules/vpc/main.tf''] \<noteq> []" by simp
  have h3: "\<forall>f \<in> set [''modules/vpc/main.tf''].
      isInDirectory (resolveChanged (Some ''/t'') f) (ResolvedPath ?M)"
    using e1 by (simp add: r)
  have h4: "\<forall>f \<in> set [''modules/vpc/main.tf''].
        \<not> isInDirectory (resolveChanged (Some ''/t'') f) (ResolvedPath (RootModule outTest))"
    using e2 by (simp add: r outTest_def)
  have h5: "\<forall>f \<in> set [''modules/vpc/main.tf'']. \<forall>m \<in> set (LocalModules outTest).
        m \<noteq> ?M \<longrightarrow> \<not> isInDirectory (resolveChanged (Some ''/t'') f) (ResolvedPath m)"
    using e3 by (simp add: r outTest_def)
  have "distinct (Files ?M) \<longrightarrow>
      FilterRelatedFiles (Some ''/t'') [] [''modules/vpc/main.tf''] outTest = Files ?M"
    using filter_to_changed_module [OF h1 h2 h3 h4 h5, of "[]"] by blast
  then show ?thesis by simp
qed

section \<open>One record for each local call\<close>

lemma records_by_visited_directory:
  "(analyzeRecursive n fs dir calledFrom st = Some (e, st') \<longrightarrow>
      (\<exists>ds. distinct ds \<and> set ds \<inter> visited st = {} \<and> visited st' = visited st \<union> set ds \<and>
            mset (map ResolvedPath (localModules st')) =
              mset (map ResolvedPath (localModules st)) + mset (concat (map (dirTargets fs) ds))))
   \<and> (rangeModuleCalls m fs absDir calledFrom' calls st2 = Some st2' \<longrightarrow>
      (\<exists>ds. distinct ds \<and> set ds \<inter> visited st2 = {} \<and> visited st2' = visited st2 \<union> set ds \<and>
            mset (map ResolvedPath (localModules st2')) =
              mset (map ResolvedPath (localModules st2)) + mset (localTargets fs absDir calls) +
              mset (concat (map (dirTargets fs) ds))))"
proof (rule traversal_rule
    [where P = "\<lambda>dir calledFrom st e st'.
        \<exists>ds. distinct ds \<and> set ds \<inter> visited st = {} \<and> visited st' = visited st \<union> set ds \<and>
            mset (map ResolvedPath (localModules st')) =
              mset (map ResolvedPath (localModules st)) + mset (concat (map (dirTargets fs) ds))"
      and Q = "\<lambda>absDir calledFrom calls st st'.
        \<exists>ds. distinct ds \<and> set ds \<inter> visited st = {} \<and> visited st' = visited st \<union> set ds \<and>
            mset (map ResolvedPath (localModules st')) =
              mset (map ResolvedPath (localModules st)) + mset (localTargets fs absDir calls) +
              mset (concat (map (dirTargets fs) ds))"],
    goal_cases)
  case (1 dir calledFrom st)
  show ?case by (rule exI [of _ "[]"]) simp
next
  case (2 dir calledFrom st absDir)
  show ?case by (rule exI [of _ "[]"]) simp
next
  case (3 dir calledFrom st absDir)
  show ?case
    by (rule exI [of _ "[absDir]"]) (use 3 in \<open>simp add: markVisited_def dirTargets_def\<close>)
next
  case (4 dir calledFrom st absDir calls st')
  then obtain ds where ds: "distinct ds" "set ds \<inter> visited (markVisited absDir st) = {}"
    "visited st' = visited (markVisited absDir st) \<union> set ds"
    "mset (map ResolvedPath (localModules st')) =
       mset (map ResolvedPath (localModules (markVisited absDir st))) +
       mset (localTargets fs absDir calls) + mset (concat (map (dirTargets fs) ds))"
    by blast
  show ?case
    by (rule exI [of _ "absDir # ds"])
       (use 4(2,3) ds in \<open>auto simp: markVisited_def dirTargets_def\<close>)
next
  case (5 absDir calledFrom st)
  show ?case by (rule exI [of _ "[]"]) (simp add: localTargets_def)
next
  case (6 absDir calledFrom name call rest st st')
  then show ?case by (simp add: addRemote_def localTargets_def)
next
  case (7 absDir calledFrom name call rest st st')
  then show ?case by (simp add: warn_def localTargets_def)
next
  case (8 absDir calledFrom name call rest st files e st1 st')
  let ?x = "resolveCall fs absDir call"
  from 8(3) obtain ds1 where ds1: "distinct ds1" "set ds1 \<inter> visited st = {}"
    "visited st1 = visited st \<union> set ds1"
    "mset (map ResolvedPath (localModules st1)) =
       mset (map ResolvedPath (localModules st)) + {#?x#} + mset (concat (map (dirTargets fs) ds1))"
    by (auto simp: addLocal_def)
  have same: "visited (afterRecursion ?x e st1) = visited st1"
    "localModules (afterRecursion ?x e st1) = localModules st1"
    by (simp_all add: afterRecursion_def warn_def split: option.splits)
  from 8(4) obtain ds2 where ds2: "distinct ds2" "set ds2 \<inter> visited st1 = {}"
    "visited st' = visited st1 \<union> set ds2"
    "mset (map ResolvedPath (localModules st')) =
       mset (map ResolvedPath (localModules st1)) + mset (localTargets fs absDir rest) +
       mset (concat (map (dirTargets fs) ds2))"
    unfolding same by blast
  have lt: "localTargets fs absDir ((name, call) # rest) = ?x # localTargets fs absDir rest"
    using 8(1,2) by (simp add: localTargets_def)
  show ?case
    by (rule exI [of _ "ds1 @ ds2"]) (use ds1 ds2 lt in auto)
qed

lemma count_list_concat_map:
  "count_list (concat (map f ds)) x = sum_list (map (\<lambda>d. count_list (f d) x) ds)"
  by (induction ds) simp_all

lemma count_list_concat_le:
  assumes "distinct ds" and "distinct ks" and "\<And>d. d \<notin> set ks \<Longrightarrow> f d = []"
  shows "count_list (concat (map f ds)) x \<le> count_list (concat (map f ks)) x"
proof -
  let ?g = "\<lambda>d. count_list (f d) x"
  have "count_list (concat (map f ds)) x = sum ?g (set ds)"
    using assms(1) by (simp add: count_list_concat_map sum_list_distinct_conv_sum_set)
  also have "\<dots> = sum ?g (set ds \<inter> set ks)"
    by (rule sum.mono_neutral_right) (use assms(3) in auto)
  also have "\<dots> \<le> sum ?g (set ks)"
    by (rule sum_mono2) auto
  also have "\<dots> = count_list (concat (map f ks)) x"
    using assms(2) by (simp add: count_list_concat_map sum_list_distinct_conv_sum_set)
  finally show ?thesis .
qed

lemma distinct_iff_count_list: "distinct xs \<longleftrightarrow> (\<forall>x. count_list xs x \<le> 1)"
proof (induction xs)
  case Nil
  then show ?case by simp
next
  case (Cons a xs)
  show ?case
  proof
    assume d: "distinct (a # xs)"
    then have "count_list xs a = 0" by (simp add: count_list_0_iff)
    with d Cons show "\<forall>x. count_list (a # xs) x \<le> 1" by auto
  next
    assume c: "\<forall>x. count_list (a # xs) x \<le> 1"
    then have "count_list (a # xs) a \<le> 1" by blast
    then have "a \<notin> set xs" by (simp add: count_list_0_iff)
    moreover have "\<forall>x. count_list xs x \<le> 1"
    proof
      fix x
      have "count_list xs x \<le> count_list (a # xs) x" by simp
      with c show "count_list xs x \<le> 1" using le_trans by blast
    qed
    ultimately show "distinct (a # xs)" using Cons by simp
  qed
qed

lemma dirTargets_outside: "d \<notin> set (remdups (map fst (dirs fs))) \<Longrightarrow> dirTargets fs d = []"
  by (auto simp: dirTargets_def LoadModule_def split: option.splits dest: map_of_SomeD
      intro: rev_image_eqI)

text \<open>
  Claim C1, which does not hold as stated: a record is appended for every local call whose
  directory can be listed, before the visited set is looked at, so a directory that two
  calls resolve to gets two records.  Here the directory \<open>/p/b\<close> is called from the root and
  from \<open>/p/a\<close>.
\<close>

theorem duplicate_records_counterexample:
  "resolvedPaths (Analyze 4 fsShared ''/p/root'') = [''/p/a'', ''/p/b'', ''/p/b'']
   \<and> \<not> distinct (resolvedPaths (Analyze 4 fsShared ''/p/root''))"
proof -
  have "resolvedPaths (Analyze 4 fsShared ''/p/root'') = [''/p/a'', ''/p/b'', ''/p/b'']"
    by code_simp
  then show ?thesis by simp
qed

text \<open>
  Claim C1 as amended.  When no directory is the target of more than one local call in
  the tree (counting, over all directories, the local calls whose directory can be listed),
  no two records of \<open>LocalModules\<close> have the same resolved path.
\<close>

theorem records_distinct_when_targets_distinct:
  assumes run: "Analyze n fs dir = Some (Inr (out, ws))"
    and targets: "distinct (allLocalTargets fs)"
  shows "distinct (map ResolvedPath (LocalModules out))"
proof -
  let ?st0 = "\<lparr>visited = {}, localModules = [], remoteModules = [], warnings = []\<rparr>"
  from run obtain absDir st where
    "analyzeRecursive n fs absDir [] ?st0 = Some (None, st)" and out: "LocalModules out = localModules st"
    by (auto simp: Analyze_def split: option.splits)
  then have "\<exists>ds. distinct ds \<and> set ds \<inter> visited ?st0 = {} \<and>
        visited st = visited ?st0 \<union> set ds \<and>
        mset (map ResolvedPath (localModules st)) =
          mset (map ResolvedPath (localModules ?st0)) + mset (concat (map (dirTargets fs) ds))"
    using records_by_visited_directory [of n fs absDir "[]" ?st0 None st] by blast
  then obtain ds where ds: "distinct ds"
    "mset (map ResolvedPath (localModules st)) =
       mset (map ResolvedPath (localModules ?st0)) + mset (concat (map (dirTargets fs) ds))"
    by blast
  have "mset (map ResolvedPath (localModules st)) = mset (concat (map (dirTargets fs) ds))"
    using ds(2) by simp
  then have same: "count_list (map ResolvedPath (localModules st)) x =
      count_list (concat (map (dirTargets fs) ds)) x" for x
    by (metis count_mset)
  have "count_list (map ResolvedPath (localModules st)) x \<le> 1" for x
  proof -
    have "count_list (map ResolvedPath (localModules st)) x =
        count_list (concat (map (dirTargets fs) ds)) x"
      by (rule same)
    also have "\<dots> \<le> count_list (allLocalTargets fs) x"
      unfolding allLocalTargets_def
      by (rule count_list_concat_le [OF ds(1)]) (simp_all add: dirTargets_outside)
    also have "\<dots> \<le> 1" using targets by (simp add: distinct_iff_count_list)
    finally show ?thesis .
  qed
  then show ?thesis by (simp add: out distinct_iff_count_list)
qed

theorem records_distinct_when_targets_distinct_witness:
  "distinct (allLocalTargets fsTree)
   \<and> resolvedPaths (Analyze 4 fsTree ''root'') = [''/t/modules/vpc'', ''/t/modules/vpc/subnets'']
   \<and> distinct (resolvedPaths (Analyze 4 fsTree ''root''))"
proof -
  have targets: "distinct (allLocalTargets fsTree)" by code_simp
  have paths: "resolvedPaths (Analyze 4 fsTree ''root'') =
      [''/t/modules/vpc'', ''/t/modules/vpc/subnets'']"
    by code_simp
  then obtain out ws where run: "Analyze 4 fsTree ''root'' = Some (Inr (out, ws))"
    by (auto simp: resolvedPaths_def split: option.splits sum.splits)
  have "distinct (map ResolvedPath (LocalModules out))"
    by (rule records_distinct_when_targets_distinct [OF run targets])
  then have "distinct (resolvedPaths (Analyze 4 fsTree ''root''))"
    by (simp add: resolvedPaths_def run)
  with targets paths show ?thesis by blast
qed

section \<open>The order of the records\<close>

text \<open>
  Claim C2, which does not hold as stated: the calls of a directory are taken from a map
  keyed by the call name, in the order of the \<open>range\<close> statement over that map.  The two
  trees below are the same filesystem state and differ in that order only; the local
  modules and the remote modules come out in different orders.
\<close>

theorem range_order_counterexample:
  "sameState (fsOrder False) (fsOrder True)
   \<and> resolvedPaths (Analyze 3 (fsOrder False) ''root'') = [''/t/modules/vpc'', ''/t/modules/iam'']
   \<and> resolvedPaths (Analyze 3 (fsOrder True) ''root'') = [''/t/modules/iam'', ''/t/modules/vpc'']
   \<and> remoteNames (Analyze 3 (fsOrder False) ''root'') = [''eks'', ''consul'']
   \<and> remoteNames (Analyze 3 (fsOrder True) ''root'') = [''consul'', ''eks'']"
proof -
  have "sameState (fsOrder False) (fsOrder True)"
    by (auto simp: sameState_def fsOrder_def sameCalls_def)
  moreover have "resolvedPaths (Analyze 3 (fsOrder False) ''root'') =
      [''/t/modules/vpc'', ''/t/modules/iam'']"
    by code_simp
  moreover have "resolvedPaths (Analyze 3 (fsOrder True) ''root'') =
      [''/t/modules/iam'', ''/t/modules/vpc'']"
    by code_simp
  moreover have "remoteNames (Analyze 3 (fsOrder False) ''root'') = [''eks'', ''consul'']"
    by code_simp
  moreover have "remoteNames (Analyze 3 (fsOrder True) ''root'') = [''consul'', ''eks'']"
    by code_simp
  ultimately show ?thesis by blast
qed

lemma range_append:
  "rangeModuleCalls n fs absDir calledFrom (xs @ ys) st =
     (case rangeModuleCalls n fs absDir calledFrom xs st of
        None \<Rightarrow> None
      | Some st1 \<Rightarrow> rangeModuleCalls n fs absDir calledFrom ys st1)"
proof (induction xs arbitrary: st)
  case Nil
  then show ?case by simp
next
  case (Cons nc rest)
  obtain name call where nc: "nc = (name, call)" by (cases nc)
  show ?case
  proof (cases "isLocalPath (callSource call)")
    case False
    then show ?thesis using Cons unfolding nc
      by (simp add: range_steps del: rangeModuleCalls.simps)
  next
    case True
    show ?thesis
    proof (cases "listTerraformFiles fs (resolveCall fs absDir call)")
      case None
      then show ?thesis using Cons True unfolding nc
        by (simp add: range_steps del: rangeModuleCalls.simps)
    next
      case (Some files)
      then show ?thesis using Cons True unfolding nc
        by (simp add: range_listed del: rangeModuleCalls.simps analyzeRecursive.simps
            split: option.splits)
    qed
  qed
qed

lemma analyzeRecursive_appends:
  "analyzeRecursive n fs dir calledFrom st = Some (e, st') \<Longrightarrow>
   \<exists>more. localModules st' = localModules st @ more"
  using traversal_grows [of n fs dir calledFrom st e st'] by (auto simp: prefix_def)

lemma rangeModuleCalls_appends:
  "rangeModuleCalls n fs absDir calledFrom calls st = Some st' \<Longrightarrow>
   (\<exists>more. localModules st' = localModules st @ more) \<and>
   (\<exists>more. remoteModules st' = remoteModules st @ more)"
  using traversal_grows [of 0 fs "[]" "[]" st None st n absDir calledFrom calls st st']
  by (auto simp: prefix_def)

text \<open>
  Claim C2 as amended.  The calls of a visited directory are processed in the order in
  which the \<open>range\<close> over the parser's map yields them.  For a call at any position of that
  order, the loop first processes the calls before it; if the call is local and its
  directory can be listed, its record comes next in \<open>localModules\<close>, then the records found
  by the recursive visit of its directory, then the records of the calls after it; if the
  call is remote, its reference comes next in \<open>remoteModules\<close>, then those of the calls
  after it.
\<close>

theorem records_in_range_order:
  assumes run: "rangeModuleCalls n fs absDir calledFrom (before @ (name, call) # after) st = Some st'"
  shows "(isLocalPath (callSource call) \<and>
          listTerraformFiles fs (resolveCall fs absDir call) = Some files \<longrightarrow>
          (\<exists>st1 e st2 earlier below later.
             rangeModuleCalls n fs absDir calledFrom before st = Some st1 \<and>
             analyzeRecursive n fs (resolveCall fs absDir call) name
               (addLocal name call (resolveCall fs absDir call) files st1) = Some (e, st2) \<and>
             rangeModuleCalls n fs absDir calledFrom after
               (afterRecursion (resolveCall fs absDir call) e st2) = Some st' \<and>
             localModules st1 = localModules st @ earlier \<and>
             localModules st2 =
               localModules st @ earlier @
               [\<lparr>Name = name, Source = callSource call,
                 ResolvedPath = resolveCall fs absDir call, Files = files\<rparr>] @ below \<and>
             localModules st' =
               localModules st @ earlier @
               [\<lparr>Name = name, Source = callSource call,
                 ResolvedPath = resolveCall fs absDir call, Files = files\<rparr>] @ below @ later))
     \<and> (\<not> isLocalPath (callSource call) \<longrightarrow>
          (\<exists>st1 earlier later.
             rangeModuleCalls n fs absDir calledFrom before st = Some st1 \<and>
             rangeModuleCalls n fs absDir calledFrom after
               (addRemote name call calledFrom st1) = Some st' \<and>
             remoteModules st1 = remoteModules st @ earlier \<and>
             remoteModules st' =
               remoteModules st @ earlier @
               [\<lparr>remoteName = name, remoteSource = callSource call,
                 Version = callVersion call,
                 CalledFrom = (if calledFrom = [] then ''(root)'' else calledFrom)\<rparr>] @ later))"
proof -
  from run obtain st1 where
    first: "rangeModuleCalls n fs absDir calledFrom before st = Some st1" and
    rest: "rangeModuleCalls n fs absDir calledFrom ((name, call) # after) st1 = Some st'"
    by (auto simp: range_append simp del: rangeModuleCalls.simps split: option.splits)
  from rangeModuleCalls_appends [OF first] obtain earlier earlier' where
    earlier: "localModules st1 = localModules st @ earlier"
      "remoteModules st1 = remoteModules st @ earlier'"
    by blast
  let ?x = "resolveCall fs absDir call"
  have local: "\<exists>st1 e st2 earlier below later.
             rangeModuleCalls n fs absDir calledFrom before st = Some st1 \<and>
             analyzeRecursive n fs ?x name (addLocal name call ?x files st1) = Some (e, st2) \<and>
             rangeModuleCalls n fs absDir calledFrom after (afterRecursion ?x e st2) = Some st' \<and>
             localModules st1 = localModules st @ earlier \<and>
             localModules st2 =
               localModules st @ earlier @
               [\<lparr>Name = name, Source = callSource call, ResolvedPath = ?x, Files = files\<rparr>] @ below \<and>
             localModules st' =
               localModules st @ earlier @
               [\<lparr>Name = name, Source = callSource call, ResolvedPath = ?x, Files = files\<rparr>] @
               below @ later"
    if loc: "isLocalPath (callSource call)" and lst: "listTerraformFiles fs ?x = Some files"
  proof -
    from rest loc lst obtain e st2 where
      rec: "analyzeRecursive n fs ?x name (addLocal name call ?x files st1) = Some (e, st2)" and
      tail: "rangeModuleCalls n fs absDir calledFrom after (afterRecursion ?x e st2) = Some st'"
      by (auto simp: range_listed simp del: rangeModuleCalls.simps analyzeRecursive.simps
          split: option.splits)
    from analyzeRecursive_appends [OF rec] obtain below where
      below: "localModules st2 = localModules (addLocal name call ?x files st1) @ below"
      by blast
    from rangeModuleCalls_appends [OF tail] obtain later where
      later: "localModules st' = localModules (afterRecursion ?x e st2) @ later"
      by blast
    have same: "localModules (afterRecursion ?x e st2) = localModules st2"
      by (simp add: afterRecursion_def warn_def split: option.splits)
    have l2: "localModules st2 =
               localModules st @ earlier @
               [\<lparr>Name = name, Source = callSource call, ResolvedPath = ?x, Files = files\<rparr>] @ below"
      using below earlier(1) by (simp add: addLocal_def)
    have l3: "localModules st' =
               localModules st @ earlier @
               [\<lparr>Name = name, Source = callSource call, ResolvedPath = ?x, Files = files\<rparr>] @
               below @ later"
      using later same l2 by simp
    show ?thesis using first rec tail earlier(1) l2 l3 by blast
  qed
  have remote: "\<exists>st1 earlier later.
             rangeModuleCalls n fs absDir calledFrom before st = Some st1 \<and>
             rangeModuleCalls n fs absDir calledFrom after
               (addRemote name call calledFrom st1) = Some st' \<and>
             remoteModules st1 = remoteModules st @ earlier \<and>
             remoteModules st' =
               remoteModules st @ earlier @
               [\<lparr>remoteName = name, remoteSource = callSource call,
                 Version = callVersion call,
                 CalledFrom = (if calledFrom = [] then ''(root)'' else calledFrom)\<rparr>] @ later"
    if rem: "\<not> isLocalPath (callSource call)"
  proof -
    from rest rem have
      tail: "rangeModuleCalls n fs absDir calledFrom after (addRemote name call calledFrom st1) = Some st'"
      by (simp add: range_remote del: rangeModuleCalls.simps)
    from rangeModuleCalls_appends [OF tail] obtain later where
      later: "remoteModules st' = remoteModules (addRemote name call calledFrom st1) @ later"
      by blast
    have "remoteModules st' =
               remoteModules st @ earlier' @
               [\<lparr>remoteName = name, remoteSource = callSource call,
                 Version = callVersion call,
                 CalledFrom = (if calledFrom = [] then ''(root)'' else calledFrom)\<rparr>] @ later"
      using later earlier(2) by (simp add: addRemote_def)
    then show ?thesis using first tail earlier(2) by blast
  qed
  show ?thesis using local remote by blast
qed


theorem records_in_range_order_witness:
  "\<exists>st' st1 e st2 earlier below later.
     rangeModuleCalls 3 fsTree ''/t/root'' []
       ([] @ (''vpc'', \<lparr>callSource = ''../modules/vpc'', callVersion = []\<rparr>) #
        [(''eks'', \<lparr>callSource = ''terraform-aws-modules/eks/aws'', callVersion = ''~> 19.0''\<rparr>)])
       \<lparr>visited = {''/t/root''}, localModules = [], remoteModules = [], warnings = []\<rparr> = Some st' \<and>
     rangeModuleCalls 3 fsTree ''/t/root'' [] []
       \<lparr>visited = {''/t/root''}, localModules = [], remoteModules = [], warnings = []\<rparr> = Some st1 \<and>
     analyzeRecursive 3 fsTree ''/t/modules/vpc'' ''vpc''
       (addLocal ''vpc'' \<lparr>callSource = ''../modules/vpc'', callVersion = []\<rparr> ''/t/modules/vpc''
          [''/t/modules/vpc/main.tf'', ''/t/modules/vpc/variables.tf''] st1) = Some (e, st2) \<and>
     localModules st2 =
       earlier @
       [\<lparr>Name = ''vpc'', Source = ''../modules/vpc'', ResolvedPath = ''/t/modules/vpc'',
         Files = [''/t/modules/vpc/main.tf'', ''/t/modules/vpc/variables.tf'']\<rparr>] @ below \<and>
     localModules st' =
       earlier @
       [\<lparr>Name = ''vpc'', Source = ''../modules/vpc'', ResolvedPath = ''/t/modules/vpc'',
         Files = [''/t/modules/vpc/main.tf'', ''/t/modules/vpc/variables.tf'']\<rparr>] @ below @ later \<and>
     map ResolvedPath (localModules st') = [''/t/modules/vpc'', ''/t/modules/vpc/subnets'']"
proof -
  let ?vpc = "\<lparr>callSource = ''../modules/vpc'', callVersion = []\<rparr>"
  let ?eks = "\<lparr>callSource = ''terraform-aws-modules/eks/aws'', callVersion = ''~> 19.0''\<rparr>"
  let ?st = "\<lparr>visited = {''/t/root''}, localModules = [], remoteModules = [], warnings = []\<rparr>"
  have "case rangeModuleCalls 3 fsTree ''/t/root'' [] ([] @ (''vpc'', ?vpc) # [(''eks'', ?eks)]) ?st of
          None \<Rightarrow> False
        | Some s \<Rightarrow> map ResolvedPath (localModules s) =
            [''/t/modules/vpc'', ''/t/modules/vpc/subnets'']"
    by code_simp
  then obtain st' where
    run: "rangeModuleCalls 3 fsTree ''/t/root'' [] ([] @ (''vpc'', ?vpc) # [(''eks'', ?eks)]) ?st = Some st'"
    and paths: "map ResolvedPath (localModules st') = [''/t/modules/vpc'', ''/t/modules/vpc/subnets'']"
    by (auto split: option.splits)
  have loc: "isLocalPath (callSource ?vpc)" by code_simp
  have x: "resolveCall fsTree ''/t/root'' ?vpc = ''/t/modules/vpc''" by code_simp
  have lst: "listTerraformFiles fsTree ''/t/modules/vpc'' =
      Some [''/t/modules/vpc/main.tf'', ''/t/modules/vpc/variables.tf'']"
    by code_simp
  from records_in_range_order [OF run, of "[''/t/modules/vpc/main.tf'', ''/t/modules/vpc/variables.tf'']"]
    loc lst
  obtain st1 e st2 earlier below later where got:
    "rangeModuleCalls 3 fsTree ''/t/root'' [] [] ?st = Some st1"
    "analyzeRecursive 3 fsTree ''/t/modules/vpc'' ''vpc''
       (addLocal ''vpc'' ?vpc ''/t/modules/vpc''
          [''/t/modules/vpc/main.tf'', ''/t/modules/vpc/variables.tf''] st1) = Some (e, st2)"
    "localModules st2 =
       earlier @
       [\<lparr>Name = ''vpc'', Source = ''../modules/vpc'', ResolvedPath = ''/t/modules/vpc'',
         Files = [''/t/modules/vpc/main.tf'', ''/t/modules/vpc/variables.tf'']\<rparr>] @ below"
    "localModules st' =
       earlier @
       [\<lparr>Name = ''vpc'', Source = ''../modules/vpc'', ResolvedPath = ''/t/modules/vpc'',
         Files = [''/t/modules/vpc/main.tf'', ''/t/modules/vpc/variables.tf'']\<rparr>] @ below @ later"
    unfolding x by (auto simp del: rangeModuleCalls.simps analyzeRecursive.simps)
  show ?thesis
    by (intro exI conjI) (rule run got paths)+
qed

section \<open>Circular references\<close>

lemma localTargets_Nil_Cons:
  "localTargets fs d ((name, call) # rest) = [] \<longleftrightarrow>
     \<not> (isLocalPath (callSource call) \<and> listTerraformFiles fs (resolveCall fs d call) \<noteq> None)
     \<and> localTargets fs d rest = []"
  by (simp add: localTargets_def)

lemma range_no_targets:
  "localTargets fs d calls = [] \<Longrightarrow>
   \<exists>st'. rangeModuleCalls n fs d calledFrom calls st = Some st' \<and>
         visited st' = visited st \<and> localModules st' = localModules st"
proof (induction calls arbitrary: st)
  case Nil
  then show ?case by simp
next
  case (Cons nc rest)
  obtain name call where nc: "nc = (name, call)" by (cases nc)
  from Cons.prems have skip:
    "\<not> (isLocalPath (callSource call) \<and> listTerraformFiles fs (resolveCall fs d call) \<noteq> None)"
    and rest: "localTargets fs d rest = []"
    unfolding nc localTargets_Nil_Cons by simp_all
  show ?case
  proof (cases "isLocalPath (callSource call)")
    case False
    then show ?thesis
      using Cons.IH [OF rest, of "addRemote name call calledFrom st"] unfolding nc
      by (simp add: range_remote addRemote_def del: rangeModuleCalls.simps)
  next
    case True
    then have "listTerraformFiles fs (resolveCall fs d call) = None" using skip by simp
    then show ?thesis
      using Cons.IH [OF rest, of "warn (CannotRead (resolveCall fs d call)) st"] True unfolding nc
      by (simp add: range_unlisted warn_def del: rangeModuleCalls.simps)
  qed
qed

lemma localTargets_single:
  assumes "localTargets fs d calls = [t]"
  shows "\<exists>pre name call post files.
           calls = pre @ (name, call) # post \<and>
           localTargets fs d pre = [] \<and> localTargets fs d post = [] \<and>
           isLocalPath (callSource call) \<and>
           listTerraformFiles fs (resolveCall fs d call) = Some files \<and>
           resolveCall fs d call = t"
proof -
  let ?P = "\<lambda>(name, call). isLocalPath (callSource call) \<and>
              listTerraformFiles fs (resolveCall fs d call) \<noteq> None"
  from assms obtain x where x: "filter ?P calls = [x]" "(\<lambda>(name, call). resolveCall fs d call) x = t"
    by (auto simp: localTargets_def map_eq_Cons_conv)
  obtain name call where nc: "x = (name, call)" by (cases x)
  from x(1) obtain pre post where split: "calls = pre @ x # post"
    "\<forall>u \<in> set pre. \<not> ?P u" "?P x" "filter ?P post = []"
    by (auto simp: filter_eq_Cons_iff)
  have "filter ?P pre = []" using split(2) by (simp add: filter_empty_conv)
  then have none: "localTargets fs d pre = []" "localTargets fs d post = []"
    using split(4) by (simp_all add: localTargets_def)
  obtain files where files: "listTerraformFiles fs (resolveCall fs d call) = Some files"
    using split(3) nc by auto
  have "calls = pre @ (name, call) # post \<and>
           localTargets fs d pre = [] \<and> localTargets fs d post = [] \<and>
           isLocalPath (callSource call) \<and>
           listTerraformFiles fs (resolveCall fs d call) = Some files \<and>
           resolveCall fs d call = t"
    using split(1,3) none files x(2) nc by simp
  then show ?thesis by blast
qed

lemma range_single_target:
  assumes single: "localTargets fs d calls = [t]"
    and visit: "\<And>name s. visited s = visited st \<Longrightarrow>
       \<exists>e s'. analyzeRecursive n fs t name s = Some (e, s') \<and> visited s' = V \<and>
              map ResolvedPath (localModules s') = map ResolvedPath (localModules s) @ below"
  shows "\<exists>st'. rangeModuleCalls n fs d calledFrom calls st = Some st' \<and> visited st' = V \<and>
           map ResolvedPath (localModules st') = map ResolvedPath (localModules st) @ t # below"
proof -
  from localTargets_single [OF single] obtain pre name call post files where
    split: "calls = pre @ (name, call) # post" and
    pre: "localTargets fs d pre = []" and post: "localTargets fs d post = []" and
    loc: "isLocalPath (callSource call)" and
    lst: "listTerraformFiles fs (resolveCall fs d call) = Some files" and
    t: "resolveCall fs d call = t"
    by blast
  from range_no_targets [OF pre] obtain s1 where
    s1: "rangeModuleCalls n fs d calledFrom pre st = Some s1"
      "visited s1 = visited st" "localModules s1 = localModules st"
    by blast
  let ?s2 = "addLocal name call t files s1"
  have "visited ?s2 = visited st" using s1(2) by (simp add: addLocal_def)
  from visit [OF this] obtain e s3 where
    s3: "analyzeRecursive n fs t name ?s2 = Some (e, s3)" "visited s3 = V"
      "map ResolvedPath (localModules s3) = map ResolvedPath (localModules ?s2) @ below"
    by blast
  let ?s4 = "afterRecursion t e s3"
  from range_no_targets [OF post] obtain s5 where
    s5: "rangeModuleCalls n fs d calledFrom post ?s4 = Some s5"
      "visited s5 = visited ?s4" "localModules s5 = localModules ?s4"
    by blast
  have s4: "visited ?s4 = visited s3" "localModules ?s4 = localModules s3"
    by (simp_all add: afterRecursion_def warn_def split: option.splits)
  have "rangeModuleCalls n fs d calledFrom ((name, call) # post) s1 = Some s5"
    using loc lst s3(1) s5(1) unfolding t [symmetric]
    by (simp add: range_listed del: rangeModuleCalls.simps analyzeRecursive.simps)
  then have "rangeModuleCalls n fs d calledFrom calls st = Some s5"
    unfolding split using s1(1) by (simp add: range_append del: rangeModuleCalls.simps)
  moreover have "visited s5 = V" using s5(2) s4(1) s3(2) by simp
  moreover have "map ResolvedPath (localModules s5) =
      map ResolvedPath (localModules st) @ t # below"
    using s5(3) s4(2) s3(3) s1(3) by (simp add: addLocal_def)
  ultimately show ?thesis by blast
qed

text \<open>
  Claim C3, which does not hold as stated.  Two records are not all there is when a
  directory of the cycle declares a further local call: in the first tree \<open>/t/module_a\<close>
  calls \<open>/t/module_b\<close>, which calls back, and also \<open>/t/module_c\<close>, and there are three
  records.  Nor are the directories known by anything but the paths that \<open>filepath.Abs\<close>
  computes, and links are not resolved: in the second tree the two directories call each
  other through links, the call back never resolves to the path of the start, and there is
  a record for every level of nesting.
\<close>

theorem circular_reference_counterexample:
  "''/t/module_b'' \<in> set (dirTargets fsCycleExtra ''/t/module_a'')
   \<and> ''/t/module_a'' \<in> set (dirTargets fsCycleExtra ''/t/module_b'')
   \<and> resolvedPaths (Analyze 4 fsCycleExtra ''/t/module_a'') =
       [''/t/module_b'', ''/t/module_a'', ''/t/module_c'']
   \<and> length (resolvedPaths (Analyze 4 fsCycleExtra ''/t/module_a'')) = 3
   \<and> resolvedPaths (Analyze 6 fsLinked ''/t/a'') = [''/t/a/b'', ''/t/a/b/a'', ''/t/a/b/a/b'']
   \<and> length (resolvedPaths (Analyze 6 fsLinked ''/t/a'')) = 3"
proof -
  have "''/t/module_b'' \<in> set (dirTargets fsCycleExtra ''/t/module_a'')" by code_simp
  moreover have "''/t/module_a'' \<in> set (dirTargets fsCycleExtra ''/t/module_b'')" by code_simp
  moreover have extra: "resolvedPaths (Analyze 4 fsCycleExtra ''/t/module_a'') =
       [''/t/module_b'', ''/t/module_a'', ''/t/module_c'']"
    by code_simp
  moreover have linked: "resolvedPaths (Analyze 6 fsLinked ''/t/a'') =
       [''/t/a/b'', ''/t/a/b/a'', ''/t/a/b/a/b'']"
    by code_simp
  ultimately show ?thesis by simp
qed

text \<open>
  Claim C3 as amended.  Let \<open>a\<close>, the path of the start made absolute, and \<open>b\<close> be
  different absolute paths.  Let the calls that the parser reports in \<open>a\<close> have exactly one
  local call whose directory can be listed, resolving to \<open>b\<close>, and the calls in \<open>b\<close>
  exactly one such call, resolving back to the same path \<open>a\<close>; both may declare remote
  calls and local calls to directories that cannot be listed as well.  Then \<open>Analyze\<close>
  returns for every depth bound from 3 on, and the local modules of its result are exactly
  two records, the one for \<open>b\<close> and then the one for \<open>a\<close>.  On every tree \<open>Analyze\<close>
  returns as soon as the depth bound exceeds the number of paths that can be listed: the
  traversal enters a path at most once.
\<close>

theorem circular_reference_two_records:
  assumes root: "Abs (getwd fs) dir = Some a"
    and absolute: "IsAbs a" "IsAbs b"
    and different: "a \<noteq> b"
    and callsA: "dirTargets fs a = [b]"
    and callsB: "dirTargets fs b = [a]"
    and fuel: "3 \<le> n"
  shows "(\<exists>out ws. Analyze n fs dir = Some (Inr (out, ws)) \<and>
            map ResolvedPath (LocalModules out) = [b, a] \<and> length (LocalModules out) = 2)
     \<and> (\<forall>fs' dir' m. length (dirs fs') < m \<longrightarrow> Analyze m fs' dir' \<noteq> None)"
proof -
  let ?st0 = "\<lparr>visited = {}, localModules = [], remoteModules = [], warnings = []\<rparr>"
  obtain k where n: "n = Suc (Suc (Suc k))"
    using fuel by (metis Suc_le_D numeral_3_eq_3 Suc_le_mono)
  from callsA obtain callsOfA where loadA: "LoadModule fs a = Some callsOfA"
    and targetsA: "localTargets fs a callsOfA = [b]"
    by (auto simp: dirTargets_def split: option.splits)
  from callsB obtain callsOfB where loadB: "LoadModule fs b = Some callsOfB"
    and targetsB: "localTargets fs b callsOfB = [a]"
    by (auto simp: dirTargets_def split: option.splits)
  from localTargets_single [OF targetsA] obtain callB where
    toB: "resolveCall fs a callB = b" by blast
  from localTargets_single [OF targetsB] obtain callA rootFiles where
    toA: "resolveCall fs b callA = a" "listTerraformFiles fs (resolveCall fs b callA) = Some rootFiles"
    by blast
  have rootListed: "listTerraformFiles fs a = Some rootFiles" using toA by simp
  have "b \<noteq> []" using absolute(2) by (auto simp: IsAbs_iff)
  then have "Abs (getwd fs) (Join [a, callSource callB]) = Some b"
    using toB by (cases "Abs (getwd fs) (Join [a, callSource callB])")
      (simp_all add: resolveCall_def del: Join.simps)
  then have canonical: "Abs (getwd fs) a = Some a" "Abs (getwd fs) b = Some b"
    using root absolute by (simp_all add: Abs_of_absolute)
  have seenA: "\<exists>e s'. analyzeRecursive (Suc k) fs a name s = Some (e, s') \<and>
        visited s' = {a, b} \<and>
        map ResolvedPath (localModules s') = map ResolvedPath (localModules s) @ []"
    if "visited s = {a, b}" for name s
    using that canonical(1) by (simp add: analyzeRecursive_Suc del: analyzeRecursive.simps)
  have visitB: "\<exists>e s'. analyzeRecursive (Suc (Suc k)) fs b name s = Some (e, s') \<and>
        visited s' = {a, b} \<and>
        map ResolvedPath (localModules s') = map ResolvedPath (localModules s) @ [a]"
    if s: "visited s = {a}" for name s
  proof -
    have marked: "visited (markVisited b s) = {a, b}" using s by (auto simp: markVisited_def)
    have "\<exists>st'. rangeModuleCalls (Suc k) fs b name callsOfB (markVisited b s) = Some st' \<and>
        visited st' = {a, b} \<and>
        map ResolvedPath (localModules st') =
          map ResolvedPath (localModules (markVisited b s)) @ a # []"
    proof (rule range_single_target [OF targetsB])
      fix name' :: string and s1 :: Traversal
      assume "visited s1 = visited (markVisited b s)"
      then have "visited s1 = {a, b}" using marked by simp
      then show "\<exists>e s'. analyzeRecursive (Suc k) fs a name' s1 = Some (e, s') \<and>
        visited s' = {a, b} \<and>
        map ResolvedPath (localModules s') = map ResolvedPath (localModules s1) @ []"
        by (rule seenA)
    qed
    then show ?thesis
      using canonical(2) different s loadB
      by (auto simp: analyzeRecursive_Suc markVisited_def
          simp del: analyzeRecursive.simps rangeModuleCalls.simps)
  qed
  have marked: "visited (markVisited a ?st0) = {a}" by (simp add: markVisited_def)
  have "\<exists>st'. rangeModuleCalls (Suc (Suc k)) fs a [] callsOfA (markVisited a ?st0) = Some st' \<and>
        visited st' = {a, b} \<and>
        map ResolvedPath (localModules st') =
          map ResolvedPath (localModules (markVisited a ?st0)) @ b # [a]"
  proof (rule range_single_target [OF targetsA])
    fix name' :: string and s1 :: Traversal
    assume "visited s1 = visited (markVisited a ?st0)"
    then have "visited s1 = {a}" using marked by simp
    then show "\<exists>e s'. analyzeRecursive (Suc (Suc k)) fs b name' s1 = Some (e, s') \<and>
        visited s' = {a, b} \<and>
        map ResolvedPath (localModules s') = map ResolvedPath (localModules s1) @ [a]"
      by (rule visitB)
  qed
  then obtain st' where
    loopA: "rangeModuleCalls (Suc (Suc k)) fs a [] callsOfA (markVisited a ?st0) = Some st'"
    and paths: "map ResolvedPath (localModules st') = [b, a]"
    by (auto simp: markVisited_def)
  have "analyzeRecursive n fs a [] ?st0 = Some (None, st')"
    unfolding n using canonical(1) loadA loopA
    by (simp add: analyzeRecursive_Suc del: analyzeRecursive.simps rangeModuleCalls.simps)
  then have "Analyze n fs dir =
      Some (Inr (\<lparr>RootModule = \<lparr>Name = [], Source = [], ResolvedPath = a, Files = rootFiles\<rparr>,
                   LocalModules = localModules st', RemoteModules = remoteModules st'\<rparr>,
                 warnings st'))"
    using root rootListed by (simp add: Analyze_def)
  moreover have "length (localModules st') = 2"
    using paths by (metis length_map length_Cons list.size(3) numeral_2_eq_2)
  ultimately have "\<exists>out ws. Analyze n fs dir = Some (Inr (out, ws)) \<and>
            map ResolvedPath (LocalModules out) = [b, a] \<and> length (LocalModules out) = 2"
    using paths by simp
  then show ?thesis using Analyze_terminates by blast
qed

theorem circular_reference_two_records_witness:
  "(\<exists>out ws. Analyze 3 fsCycleMixed ''module_a'' = Some (Inr (out, ws)) \<and>
        map ResolvedPath (LocalModules out) = [''/t/module_b'', ''/t/module_a''] \<and>
        length (LocalModules out) = 2)
   \<and> (\<exists>out ws. Analyze 3 fsCycle ''module_a'' = Some (Inr (out, ws)) \<and>
        map ResolvedPath (LocalModules out) = [''/t/module_b'', ''/t/module_a''] \<and>
        length (LocalModules out) = 2)"
proof -
  have a: "IsAbs ''/t/module_a''" and b: "IsAbs ''/t/module_b''" by code_simp+
  have ab: "''/t/module_a'' \<noteq> ''/t/module_b''" by simp
  have n: "(3::nat) \<le> 3" by simp
  have m1: "Abs (getwd fsCycleMixed) ''module_a'' = Some ''/t/module_a''" by code_simp
  have m2: "dirTargets fsCycleMixed ''/t/module_a'' = [''/t/module_b'']" by code_simp
  have m3: "dirTargets fsCycleMixed ''/t/module_b'' = [''/t/module_a'']" by code_simp
  have c1: "Abs (getwd fsCycle) ''module_a'' = Some ''/t/module_a''" by code_simp
  have c2: "dirTargets fsCycle ''/t/module_a'' = [''/t/module_b'']" by code_simp
  have c3: "dirTargets fsCycle ''/t/module_b'' = [''/t/module_a'']" by code_simp
  show ?thesis
    using circular_reference_two_records [OF m1 a b ab m2 m3 n]
      circular_reference_two_records [OF c1 a b ab c2 c3 n]
    by blast
qed

end
